theory Spec2Isabelle
  imports Complex_Main
begin

section \<open>Numbers and typed arrays\<close>

text \<open>
  The components compute with JavaScript numbers.  They are modelled as real numbers: the
  arithmetic of the source is kept operation by operation, the rounding of IEEE doubles
  (and of the single-precision slots of a \<^verbatim>\<open>Float32Array\<close>) is not modelled.
  Array indices and byte values are natural numbers.
\<close>

text \<open>\<^verbatim>\<open>Math.trunc\<close>: rounding towards zero, as the remainder operator and the typed
  array stores use it.\<close>

definition jsTrunc :: "real \<Rightarrow> int" where
  "jsTrunc x = (if 0 \<le> x then \<lfloor>x\<rfloor> else \<lceil>x\<rceil>)"

text \<open>The operator \<^verbatim>\<open>a % b\<close> on numbers: the remainder of the truncating division, with
  the sign of the dividend.  (For \<open>b = 0\<close> JavaScript gives NaN; every caller below has a
  positive divisor.)\<close>

definition jsRemainder :: "real \<Rightarrow> real \<Rightarrow> real" where
  "jsRemainder a b = a - b * of_int (jsTrunc (a / b))"

text \<open>A store into a \<^verbatim>\<open>Uint8Array\<close> slot: truncate, then reduce modulo 256.\<close>

definition toUint8 :: "real \<Rightarrow> nat" where
  "toUint8 x = nat (jsTrunc x mod 256)"

text \<open>\<^verbatim>\<open>Math.pow(x, y)\<close> for a base \<open>x \<ge> 0\<close> and a positive exponent.\<close>

definition jsPow :: "real \<Rightarrow> real \<Rightarrow> real" where
  "jsPow x y = x powr y"

section \<open>The height-field component (RainforestSpectrogram.tsx)\<close>

subsection \<open>Configuration constants\<close>

definition FREQUENCY_BINS :: nat where "FREQUENCY_BINS = 256"
definition HISTORY_LENGTH :: nat where "HISTORY_LENGTH = 256"
definition ROW_BYTE_SIZE :: nat where "ROW_BYTE_SIZE = FREQUENCY_BINS * 4"
definition MIN_DECIBELS :: real where "MIN_DECIBELS = - 90"
definition MAX_DECIBELS :: real where "MAX_DECIBELS = - 15"
definition SMOOTHING_CONSTANT :: real where "SMOOTHING_CONSTANT = 0.15"
definition LOW_FREQUENCY_CUTOFF_HZ :: real where "LOW_FREQUENCY_CUTOFF_HZ = 200"
definition FREQUENCY_SMOOTH_KERNEL :: "real list" where
  "FREQUENCY_SMOOTH_KERNEL = [0.03, 0.08, 0.15, 0.18, 0.15, 0.08, 0.03]"
definition FREQUENCY_SMOOTH_MIX :: real where "FREQUENCY_SMOOTH_MIX = 0.9"
definition TEMPORAL_SMOOTHING :: real where "TEMPORAL_SMOOTHING = 0.7"

text \<open>The local constant \<^verbatim>\<open>fftSize\<close> of \<^verbatim>\<open>computeFrequencyData\<close>.\<close>

definition fftSize :: nat where "fftSize = 2048"

subsection \<open>The decoded asset and the component's references\<close>

text \<open>An \<^verbatim>\<open>AudioBuffer\<close>: the sample rate and the samples of channel 0.  Its
  \<^verbatim>\<open>duration\<close> attribute is, by the Web Audio interface, the length divided by the
  sample rate; the interface admits no buffer without samples and no sample rate that is
  not positive.\<close>

record AudioBuffer =
  sampleRate :: real
  channelData :: "real list"

definition duration :: "AudioBuffer \<Rightarrow> real" where
  "duration b = real (length (channelData b)) / sampleRate b"

definition wellFormed :: "AudioBuffer \<Rightarrow> bool" where
  "wellFormed b \<longleftrightarrow> 0 < sampleRate b \<and> channelData b \<noteq> []"

datatype ContextState = Suspended | Running | Closed

text \<open>The references (\<^verbatim>\<open>useRef\<close>) of the component.  A reference that may be
  \<^verbatim>\<open>null\<close> is an option.  \<open>audioSourceRef\<close> keeps the offset at which the
  source was started; \<open>spectrogramTextureRef\<close> keeps \<^verbatim>\<open>texture.image.data\<close>.\<close>

record Component =
  audioContextRef :: "ContextState option"
  audioSourceRef :: "real option"
  audioBufferRef :: "AudioBuffer option"
  analyserRef :: bool
  audioReadyRef :: bool
  isStartedRef :: bool
  dataArrayRef :: "nat list option"
  spectrogramTextureRef :: "nat list option"
  prevFrequencyDataRef :: "real list option"
  normalizedBinsRef :: "real list"
  smoothedRowRef :: "real list"
  hasSmoothedRowRef :: bool

subsection \<open>Virtual playback clock\<close>

text \<open>Both \<^verbatim>\<open>computeFrequencyData\<close> and \<^verbatim>\<open>startAudioSource\<close> begin with
  \<^verbatim>\<open>time = performance.now() / 1000; offset = time % duration\<close>.  The reading of
  \<^verbatim>\<open>performance.now()\<close> (milliseconds) is the parameter \<open>now\<close>.\<close>

definition clockOffset :: "real \<Rightarrow> real \<Rightarrow> real" where
  "clockOffset time dur = jsRemainder time dur"

text \<open>\<^verbatim>\<open>startAudioSource\<close>: nothing happens without a context, a buffer and an analyser,
  or when a source exists already; otherwise a looping source is started at the clock's
  offset and recorded.  (A failure of the platform call is caught and logged by the source;
  the platform is not modelled.)\<close>

definition startAudioSource :: "real \<Rightarrow> Component \<Rightarrow> Component" where
  "startAudioSource now st =
     (if audioContextRef st = None \<or> audioBufferRef st = None \<or> \<not> analyserRef st
         \<or> audioSourceRef st \<noteq> None then st
      else (case audioBufferRef st of
              None \<Rightarrow> st
            | Some buffer \<Rightarrow>
                (let time = now / 1000;
                     dur = duration buffer;
                     offset = clockOffset time dur
                 in st\<lparr>audioSourceRef := Some offset, audioReadyRef := True\<rparr>)))"

subsection \<open>Windowed frequency analyzer\<close>

text \<open>A read of \<^verbatim>\<open>channelData[i]\<close>.  Outside the array JavaScript yields
  \<^verbatim>\<open>undefined\<close>; the model yields \<open>None\<close> and gives up the analysis there.\<close>

definition sampleAt :: "real list \<Rightarrow> int \<Rightarrow> real option" where
  "sampleAt cd i = (if 0 \<le> i \<and> i < int (length cd) then Some (cd ! nat i) else None)"

text \<open>The inner loop over \<open>n\<close>: Hann window and correlation with bin \<open>k\<close>.  The
  accumulator is the pair (\<^verbatim>\<open>real\<close>, \<^verbatim>\<open>imag\<close>).\<close>

primrec dftLoop :: "real list \<Rightarrow> int \<Rightarrow> nat \<Rightarrow> nat list \<Rightarrow> real \<times> real \<Rightarrow> (real \<times> real) option" where
  "dftLoop cd startIndex k [] acc = Some acc"
| "dftLoop cd startIndex k (n # ns) acc =
     (case sampleAt cd (startIndex + int n) of
        None \<Rightarrow> None
      | Some sample \<Rightarrow>
          (let window = 0.5 * (1 - cos ((2 * pi * real n) / (real fftSize - 1)));
               windowedSample = sample * window;
               angle = (2 * pi * real k * real n) / real fftSize
           in dftLoop cd startIndex k ns
                (fst acc + windowedSample * cos angle, snd acc - windowedSample * sin angle)))"

text \<open>Magnitude, decibels, and the clamped byte value of one bin.\<close>

definition byteValueOf :: "real \<times> real \<Rightarrow> real" where
  "byteValueOf acc =
     (let re = fst acc; im = snd acc;
          magnitude = sqrt (re * re + im * im);
          normalized = magnitude / real fftSize + 1 / 10 ^ 10;
          db = 20 * log 10 normalized;
          rangeScaleFactor = 255 / (MAX_DECIBELS - MIN_DECIBELS);
          byteValue = (db - MIN_DECIBELS) * rangeScaleFactor
      in max 0 (min 255 byteValue))"

text \<open>The outer loop over the bins \<open>k\<close>.  The state is the pair
  (\<^verbatim>\<open>targetArray\<close>, \<^verbatim>\<open>prevData\<close>); both arrays have the same length, so
  \<^verbatim>\<open>prevData[k]\<close> is read inside its array.\<close>

primrec binLoop :: "real list \<Rightarrow> int \<Rightarrow> nat list \<Rightarrow> nat list \<times> real list \<Rightarrow> (nat list \<times> real list) option" where
  "binLoop cd startIndex [] frame = Some frame"
| "binLoop cd startIndex (k # ks) frame =
     (case dftLoop cd startIndex k [0..<fftSize] (0, 0) of
        None \<Rightarrow> None
      | Some acc \<Rightarrow>
          (let byteValue = byteValueOf acc;
               smoothedValue = snd frame ! k * SMOOTHING_CONSTANT
                               + byteValue * (1 - SMOOTHING_CONSTANT)
           in binLoop cd startIndex ks
                ((fst frame)[k := toUint8 smoothedValue], (snd frame)[k := smoothedValue])))"

text \<open>\<^verbatim>\<open>array.fill(0, 0, end)\<close> on a typed array.\<close>

definition fillZero :: "'a::zero list \<Rightarrow> nat \<Rightarrow> 'a list" where
  "fillZero xs e = replicate (min e (length xs)) 0 @ drop e xs"

text \<open>The sample index \<^verbatim>\<open>Math.floor(offset * sampleRate)\<close>, and the bin index of the
  low-frequency cutoff (a natural number, the sample rate being positive).\<close>

definition startIndexOf :: "real \<Rightarrow> AudioBuffer \<Rightarrow> int" where
  "startIndexOf now buffer =
     (let time = now / 1000;
          dur = duration buffer;
          offset = clockOffset time dur
      in \<lfloor>offset * sampleRate buffer\<rfloor>)"

definition cutoffBinOf :: "AudioBuffer \<Rightarrow> nat \<Rightarrow> nat" where
  "cutoffBinOf buffer binCount =
     (let binResolutionHz = sampleRate buffer / real fftSize
      in min binCount (nat \<lceil>LOW_FREQUENCY_CUTOFF_HZ / binResolutionHz\<rceil>))"

text \<open>What a call of \<^verbatim>\<open>computeFrequencyData\<close> leaves behind: it returned at the safety
  check (\<open>Skipped\<close>), it ran the loops (\<open>Updated\<close>), or it read a sample outside the
  buffer (\<open>UndefinedRead\<close>).  The first two carry \<^verbatim>\<open>targetArray\<close> and the buffer of
  \<^verbatim>\<open>prevFrequencyDataRef\<close>, which is allocated before the safety check.\<close>

datatype Analysis = Skipped "nat list" "real list" | Updated "nat list" "real list" | UndefinedRead

text \<open>The buffer behind \<^verbatim>\<open>prevFrequencyDataRef\<close> once the function has looked at it:
  a missing buffer is allocated, zero-filled, with the length of the target array.\<close>

definition prevDataOf :: "nat list \<Rightarrow> real list option \<Rightarrow> real list" where
  "prevDataOf targetArray prevRef =
     (case prevRef of None \<Rightarrow> replicate (length targetArray) 0 | Some p \<Rightarrow> p)"

definition computeFrequencyData :: "real \<Rightarrow> AudioBuffer \<Rightarrow> nat list \<Rightarrow> real list option \<Rightarrow> Analysis" where
  "computeFrequencyData now buffer targetArray prevRef =
     (let startIndex = startIndexOf now buffer;
          cd = channelData buffer;
          prevData = prevDataOf targetArray prevRef
      in if startIndex + int fftSize \<ge> int (length cd) then Skipped targetArray prevData
         else
           (let binCount = min FREQUENCY_BINS (length targetArray);
                cutoffBin = cutoffBinOf buffer binCount;
                frame = (if cutoffBin > 0
                         then (fillZero targetArray cutoffBin, fillZero prevData cutoffBin)
                         else (targetArray, prevData))
            in case binLoop cd startIndex [cutoffBin..<binCount] frame of
                 None \<Rightarrow> UndefinedRead
               | Some out \<Rightarrow> Updated (fst out) (snd out)))"

subsection \<open>Smoothing pipeline and history buffer\<close>

text \<open>\<^verbatim>\<open>array.copyWithin(target, start, end)\<close>; a negative argument counts from the
  end of the array.\<close>

definition relativeIndex :: "int \<Rightarrow> int \<Rightarrow> nat" where
  "relativeIndex len k = nat (if k < 0 then max (len + k) 0 else min k len)"

definition copyWithin :: "'a list \<Rightarrow> int \<Rightarrow> int \<Rightarrow> int \<Rightarrow> 'a list" where
  "copyWithin xs target start end =
     (let len = int (length xs);
          to = relativeIndex len target;
          from = relativeIndex len start;
          final = relativeIndex len end;
          count = min (final - from) (length xs - to)
      in take to xs @ take count (drop from xs) @ drop (to + count) xs)"

text \<open>The first loop of \<^verbatim>\<open>updateSpectrogram\<close> fills every slot of
  \<^verbatim>\<open>normalizedBins\<close>, an array of \<open>FREQUENCY_BINS\<close> slots.\<close>

definition normalizeBins :: "nat list \<Rightarrow> real list" where
  "normalizeBins dataArray =
     (let usableBins = min FREQUENCY_BINS (length dataArray)
      in map (\<lambda>i. let magnitude = (if i < usableBins then real (dataArray ! i) else 0)
                  in jsPow (magnitude / 255) 0.7)
             [0..<FREQUENCY_BINS])"

definition kernelRadius :: nat where
  "kernelRadius = length FREQUENCY_SMOOTH_KERNEL div 2"

text \<open>The tap index \<^verbatim>\<open>i + (k - kernelRadius)\<close>, clamped to the row.\<close>

definition tapIndex :: "nat \<Rightarrow> nat \<Rightarrow> nat" where
  "tapIndex i k =
     (let index = int i + (int k - int kernelRadius);
          index1 = (if index < 0 then 0 else index);
          index2 = (if index1 \<ge> int FREQUENCY_BINS then int FREQUENCY_BINS - 1 else index1)
      in nat index2)"

primrec kernelLoop :: "real list \<Rightarrow> nat \<Rightarrow> nat list \<Rightarrow> real \<Rightarrow> real" where
  "kernelLoop normalizedBins i [] smoothed = smoothed"
| "kernelLoop normalizedBins i (k # ks) smoothed =
     kernelLoop normalizedBins i ks
       (smoothed + normalizedBins ! tapIndex i k * FREQUENCY_SMOOTH_KERNEL ! k)"

definition blendedFreq :: "real list \<Rightarrow> nat \<Rightarrow> real" where
  "blendedFreq normalizedBins i =
     (let smoothed = kernelLoop normalizedBins i [0..<length FREQUENCY_SMOOTH_KERNEL] 0
      in normalizedBins ! i * (1 - FREQUENCY_SMOOTH_MIX) + smoothed * FREQUENCY_SMOOTH_MIX)"

definition finalValue :: "bool \<Rightarrow> real \<Rightarrow> real \<Rightarrow> real" where
  "finalValue hasPrevRow prev blended =
     (if hasPrevRow then prev * TEMPORAL_SMOOTHING + blended * (1 - TEMPORAL_SMOOTHING)
      else blended)"

text \<open>The four bytes written for one bin.\<close>

definition pixelBytes :: "real \<Rightarrow> nat list" where
  "pixelBytes v = [toUint8 (v * 255), toUint8 (jsPow v 0.9 * 255), toUint8 (200 + v * 55), 255]"

text \<open>The second loop of \<^verbatim>\<open>updateSpectrogram\<close>, over the bins \<open>i\<close>.  The state is the
  pair (\<^verbatim>\<open>smoothedRow\<close>, \<^verbatim>\<open>spectrogramData\<close>).\<close>

primrec rowLoop :: "real list \<Rightarrow> bool \<Rightarrow> nat list \<Rightarrow> real list \<times> nat list \<Rightarrow> real list \<times> nat list" where
  "rowLoop normalizedBins hasPrevRow [] acc = acc"
| "rowLoop normalizedBins hasPrevRow (i # is) acc =
     (let v = finalValue hasPrevRow (fst acc ! i) (blendedFreq normalizedBins i);
          pixelIndex = (FREQUENCY_BINS - 1 - i) * 4
      in rowLoop normalizedBins hasPrevRow is
           ((fst acc)[i := v],
            (snd acc)[pixelIndex := pixelBytes v ! 0,
                      pixelIndex + 1 := pixelBytes v ! 1,
                      pixelIndex + 2 := pixelBytes v ! 2,
                      pixelIndex + 3 := pixelBytes v ! 3]))"

text \<open>The part of \<^verbatim>\<open>updateSpectrogram\<close> after the analysis: shift the history by one
  row, normalise, smooth, and write the newest row.\<close>

definition commitRow :: "nat list \<Rightarrow> nat list \<Rightarrow> Component \<Rightarrow> Component" where
  "commitRow dataArray spectrogramData st =
     (let shifted = copyWithin spectrogramData (int ROW_BYTE_SIZE) 0
                      (int (length spectrogramData) - int ROW_BYTE_SIZE);
          normalizedBins = normalizeBins dataArray;
          out = rowLoop normalizedBins (hasSmoothedRowRef st) [0..<FREQUENCY_BINS]
                  (smoothedRowRef st, shifted)
      in st\<lparr>spectrogramTextureRef := Some (snd out),
             normalizedBinsRef := normalizedBins,
             smoothedRowRef := fst out,
             hasSmoothedRowRef := True\<rparr>)"

text \<open>\<^verbatim>\<open>updateSpectrogram\<close>.  The result is \<open>None\<close> when the analysis read a sample
  outside the buffer.\<close>

definition updateSpectrogram :: "real \<Rightarrow> Component \<Rightarrow> Component option" where
  "updateSpectrogram now st =
     (case dataArrayRef st of
        None \<Rightarrow> Some st
      | Some dataArray \<Rightarrow>
          (case spectrogramTextureRef st of
             None \<Rightarrow> Some st
           | Some spectrogramData \<Rightarrow>
               (case audioBufferRef st of
                  None \<Rightarrow> Some (commitRow dataArray spectrogramData st)
                | Some buffer \<Rightarrow>
                    (case computeFrequencyData now buffer dataArray (prevFrequencyDataRef st) of
                       UndefinedRead \<Rightarrow> None
                     | Skipped t p \<Rightarrow>
                         Some (commitRow t spectrogramData
                                 (st\<lparr>dataArrayRef := Some t, prevFrequencyDataRef := Some p\<rparr>))
                     | Updated t p \<Rightarrow>
                         Some (commitRow t spectrogramData
                                 (st\<lparr>dataArrayRef := Some t, prevFrequencyDataRef := Some p\<rparr>))))))"

text \<open>Successive animation ticks; each entry is the reading of \<^verbatim>\<open>performance.now()\<close>
  at that tick.\<close>

fun ticks :: "real list \<Rightarrow> Component \<Rightarrow> Component option" where
  "ticks [] st = Some st"
| "ticks (now # rest) st =
     (case updateSpectrogram now st of None \<Rightarrow> None | Some st' \<Rightarrow> ticks rest st')"

text \<open>One tick of \<^verbatim>\<open>updateSpectrogram\<close> whose analysis leaves the frame \<open>d\<close> in the data
  array, and a sequence of such ticks.\<close>

definition commitFrame :: "nat list \<Rightarrow> Component \<Rightarrow> Component" where
  "commitFrame d st =
     (case spectrogramTextureRef st of
        None \<Rightarrow> st
      | Some tex \<Rightarrow> commitRow d tex (st\<lparr>dataArrayRef := Some d\<rparr>))"


subsection \<open>Addressing the history\<close>

text \<open>The texture is \<open>HISTORY_LENGTH\<close> rows of \<open>FREQUENCY_BINS\<close> pixels of four bytes,
  addressed by (time, frequency).\<close>

definition textureData :: "Component \<Rightarrow> nat list" where
  "textureData st = (case spectrogramTextureRef st of None \<Rightarrow> [] | Some tex \<Rightarrow> tex)"

definition historyRow :: "nat list \<Rightarrow> nat \<Rightarrow> nat list" where
  "historyRow data t = take ROW_BYTE_SIZE (drop (t * ROW_BYTE_SIZE) data)"

definition storedPixel :: "nat list \<Rightarrow> nat \<Rightarrow> nat \<Rightarrow> nat list" where
  "storedPixel data t p = take 4 (drop (t * ROW_BYTE_SIZE + p * 4) data)"

text \<open>The bytes of the row that a tick writes, read off the row it has just smoothed:
  pixel \<open>p\<close> of the row belongs to bin \<open>FREQUENCY_BINS - 1 - p\<close>.\<close>

definition committedRow :: "Component \<Rightarrow> nat list" where
  "committedRow st =
     concat (map (\<lambda>p. pixelBytes (smoothedRowRef st ! (FREQUENCY_BINS - 1 - p)))
               [0..<FREQUENCY_BINS])"

text \<open>The component after mounting: the byte array of the analyser and the texture exist,
  the texture has its full size, and the row buffer has one slot per bin.\<close>

definition mounted :: "Component \<Rightarrow> bool" where
  "mounted st \<longleftrightarrow>
     dataArrayRef st \<noteq> None
     \<and> (case spectrogramTextureRef st of
          None \<Rightarrow> False
        | Some tex \<Rightarrow> length tex = FREQUENCY_BINS * HISTORY_LENGTH * 4)
     \<and> length (smoothedRowRef st) = FREQUENCY_BINS"

text \<open>The look-up of the vertex shader,
  \<^verbatim>\<open>texture2D(u_spectrogram, vec2(vUv.x, vUv.y))\<close>: the coordinates are used as they
  come.\<close>

definition sampleCoordinate :: "real \<times> real \<Rightarrow> real \<times> real" where
  "sampleCoordinate vUv = (fst vUv, snd vUv)"

section \<open>The 64-bin height-field variant\<close>

text \<open>A second height-field component of the repository has 64 bins and 96 rows, an
  analysis over a window of 512 samples without low-frequency cutoff, the same history
  shift, and no smoothing pipeline.  Its \<^verbatim>\<open>computeFrequencyData\<close> is modelled, and of its
  \<^verbatim>\<open>updateSpectrogram\<close> the part after the analysis: the shift of the history and the loop
  that writes the newest row.  Its constants and functions carry the prefix
  \<open>VARIANT\<close> or \<open>variant\<close> here.\<close>

definition VARIANT_FREQUENCY_BINS :: nat where "VARIANT_FREQUENCY_BINS = 64"
definition VARIANT_HISTORY_LENGTH :: nat where "VARIANT_HISTORY_LENGTH = 96"
definition VARIANT_ROW_BYTE_SIZE :: nat where "VARIANT_ROW_BYTE_SIZE = VARIANT_FREQUENCY_BINS * 4"

definition variantNormalized :: "nat list \<Rightarrow> nat \<Rightarrow> real" where
  "variantNormalized dataArray i =
     (let usableBins = min VARIANT_FREQUENCY_BINS (length dataArray);
          magnitude = (if i < usableBins then real (dataArray ! i) else 0)
      in jsPow (magnitude / 255) 0.7)"

primrec variantRowLoop :: "nat list \<Rightarrow> nat list \<Rightarrow> nat list \<Rightarrow> nat list" where
  "variantRowLoop dataArray [] spectrogramData = spectrogramData"
| "variantRowLoop dataArray (i # is) spectrogramData =
     (let normalized = variantNormalized dataArray i;
          pixelIndex = i * 4
      in variantRowLoop dataArray is
           (spectrogramData[pixelIndex := toUint8 (normalized * 255),
                            pixelIndex + 1 := toUint8 (jsPow normalized 0.9 * 255),
                            pixelIndex + 2 := toUint8 (200 + normalized * 55),
                            pixelIndex + 3 := 255]))"

definition variantCommitRow :: "nat list \<Rightarrow> nat list \<Rightarrow> nat list" where
  "variantCommitRow dataArray spectrogramData =
     (let shifted = copyWithin spectrogramData (int VARIANT_ROW_BYTE_SIZE) 0
                      (int (length spectrogramData) - int VARIANT_ROW_BYTE_SIZE)
      in variantRowLoop dataArray [0..<VARIANT_FREQUENCY_BINS] shifted)"

text \<open>The analyser: its \<^verbatim>\<open>SMOOTHING_CONSTANT\<close> and the local constant \<^verbatim>\<open>fftSize\<close> of its
  \<^verbatim>\<open>computeFrequencyData\<close>; \<^verbatim>\<open>MIN_DECIBELS\<close> and \<^verbatim>\<open>MAX_DECIBELS\<close> have the values of the
  first component.\<close>

definition VARIANT_SMOOTHING_CONSTANT :: real where "VARIANT_SMOOTHING_CONSTANT = 0.85"

definition variantFftSize :: nat where "variantFftSize = 512"

text \<open>The inner loop over \<open>n\<close>, the byte value of one bin and the outer loop over the
  bins, as in the first component but for the constants.\<close>

primrec variantDftLoop :: "real list \<Rightarrow> int \<Rightarrow> nat \<Rightarrow> nat list \<Rightarrow> real \<times> real \<Rightarrow> (real \<times> real) option" where
  "variantDftLoop cd startIndex k [] acc = Some acc"
| "variantDftLoop cd startIndex k (n # ns) acc =
     (case sampleAt cd (startIndex + int n) of
        None \<Rightarrow> None
      | Some sample \<Rightarrow>
          (let window = 0.5 * (1 - cos ((2 * pi * real n) / (real variantFftSize - 1)));
               windowedSample = sample * window;
               angle = (2 * pi * real k * real n) / real variantFftSize
           in variantDftLoop cd startIndex k ns
                (fst acc + windowedSample * cos angle, snd acc - windowedSample * sin angle)))"

definition variantByteValueOf :: "real \<times> real \<Rightarrow> real" where
  "variantByteValueOf acc =
     (let re = fst acc; im = snd acc;
          magnitude = sqrt (re * re + im * im);
          normalized = magnitude / real variantFftSize + 1 / 10 ^ 10;
          db = 20 * log 10 normalized;
          rangeScaleFactor = 255 / (MAX_DECIBELS - MIN_DECIBELS);
          byteValue = (db - MIN_DECIBELS) * rangeScaleFactor
      in max 0 (min 255 byteValue))"

primrec variantBinLoop :: "real list \<Rightarrow> int \<Rightarrow> nat list \<Rightarrow> nat list \<times> real list \<Rightarrow> (nat list \<times> real list) option" where
  "variantBinLoop cd startIndex [] frame = Some frame"
| "variantBinLoop cd startIndex (k # ks) frame =
     (case variantDftLoop cd startIndex k [0..<variantFftSize] (0, 0) of
        None \<Rightarrow> None
      | Some acc \<Rightarrow>
          (let byteValue = variantByteValueOf acc;
               smoothedValue = snd frame ! k * VARIANT_SMOOTHING_CONSTANT
                               + byteValue * (1 - VARIANT_SMOOTHING_CONSTANT)
           in variantBinLoop cd startIndex ks
                ((fst frame)[k := toUint8 smoothedValue], (snd frame)[k := smoothedValue])))"

text \<open>\<^verbatim>\<open>computeFrequencyData\<close> of the variant.  The sample index is computed as in the
  first component; there is no low-frequency cutoff, the loop starts at bin 0.\<close>

definition variantComputeFrequencyData :: "real \<Rightarrow> AudioBuffer \<Rightarrow> nat list \<Rightarrow> real list option \<Rightarrow> Analysis" where
  "variantComputeFrequencyData now buffer targetArray prevRef =
     (let startIndex = startIndexOf now buffer;
          cd = channelData buffer;
          prevData = prevDataOf targetArray prevRef
      in if startIndex + int variantFftSize \<ge> int (length cd) then Skipped targetArray prevData
         else
           (let binCount = min VARIANT_FREQUENCY_BINS (length targetArray)
            in case variantBinLoop cd startIndex [0..<binCount] (targetArray, prevData) of
                 None \<Rightarrow> UndefinedRead
               | Some out \<Rightarrow> Updated (fst out) (snd out)))"

section \<open>The contour component\<close>

text \<open>The constants of the component that matter here.\<close>

definition BLEND_DURATION_MS :: real where "BLEND_DURATION_MS = 600"

definition SURFACE_COUNT :: nat where "SURFACE_COUNT = 3"
definition TIME_SLICES :: nat where "TIME_SLICES = 28"
definition FREQ_BINS :: nat where "FREQ_BINS = 20"
definition WINDOW_SIZE :: nat where "WINDOW_SIZE = 2048"
definition MIN_FREQ :: real where "MIN_FREQ = 60"
definition MAX_FREQ :: real where "MAX_FREQ = 9000"

type_synonym SurfaceMatrix = "real list list"

subsection \<open>Extraction of the surfaces\<close>

text \<open>The decoded audio: the samples of channel 0 and the sample rate (the field
  \<^verbatim>\<open>sampleRate\<close> of the source).\<close>

record AudioPayload =
  samples :: "real list"
  payloadRate :: real

definition applyHannWindow :: "nat \<Rightarrow> nat \<Rightarrow> real" where
  "applyHannWindow len index =
     (if len \<le> 1 then 1 else 0.5 * (1 - cos ((2 * pi * real index) / (real len - 1))))"

text \<open>The inner loop of \<^verbatim>\<open>computeSpectrumSegment\<close>; the state is
  (\<^verbatim>\<open>cosValue\<close>, \<^verbatim>\<open>sinValue\<close>, \<^verbatim>\<open>real\<close>, \<^verbatim>\<open>imag\<close>).\<close>

primrec segmentLoop :: "real list \<Rightarrow> real \<Rightarrow> real \<Rightarrow> nat list \<Rightarrow> real \<times> real \<times> real \<times> real \<Rightarrow> real \<times> real \<times> real \<times> real" where
  "segmentLoop segment cosDelta sinDelta [] acc = acc"
| "segmentLoop segment cosDelta sinDelta (i # is) acc =
     (case acc of (cosValue, sinValue, re, im) \<Rightarrow>
        (let windowedSample = segment ! i * applyHannWindow (length segment) i;
             re' = re + windowedSample * cosValue;
             im' = im - windowedSample * sinValue;
             nextCos = cosValue * cosDelta - sinValue * sinDelta;
             nextSin = sinValue * cosDelta + cosValue * sinDelta
         in segmentLoop segment cosDelta sinDelta is (nextCos, nextSin, re', im')))"

definition binMagnitude :: "real list \<Rightarrow> real \<Rightarrow> nat \<Rightarrow> real" where
  "binMagnitude segment rate bin =
     (let nyquist = rate / 2;
          maxTargetFreq = min MAX_FREQ nyquist;
          freqSpan = max 1 (maxTargetFreq - MIN_FREQ);
          freq = MIN_FREQ + (freqSpan * real bin) / real (if FREQ_BINS - 1 = 0 then 1 else FREQ_BINS - 1);
          angle = (2 * pi * freq) / rate;
          cosDelta = cos angle;
          sinDelta = sin angle
      in case segmentLoop segment cosDelta sinDelta [0..<length segment] (1, 0, 0, 0) of
           (cosValue, sinValue, re, im) \<Rightarrow> sqrt (re * re + im * im))"

definition computeSpectrumSegment :: "real list \<Rightarrow> real \<Rightarrow> real list" where
  "computeSpectrumSegment segment rate = map (binMagnitude segment rate) [0..<FREQ_BINS]"

text \<open>\<^verbatim>\<open>array.subarray(begin, end)\<close> for indices that are not negative.\<close>

definition subarray :: "'a list \<Rightarrow> nat \<Rightarrow> nat \<Rightarrow> 'a list" where
  "subarray xs b e = drop b (take e xs)"

text \<open>\<^verbatim>\<open>magnitudes.forEach((value) => { if (value > globalMax) globalMax = value; })\<close>\<close>

primrec maxLoop :: "real list \<Rightarrow> real \<Rightarrow> real" where
  "maxLoop [] globalMax = globalMax"
| "maxLoop (v # vs) globalMax = maxLoop vs (if v > globalMax then v else globalMax)"

text \<open>The loop over the time slices of one layer; the state is the pair
  (\<^verbatim>\<open>surface\<close>, \<^verbatim>\<open>globalMax\<close>).\<close>

primrec sliceLoop :: "real list \<Rightarrow> real \<Rightarrow> nat \<Rightarrow> nat list \<Rightarrow> SurfaceMatrix \<times> real \<Rightarrow> SurfaceMatrix \<times> real" where
  "sliceLoop layer rate sliceLength [] acc = acc"
| "sliceLoop layer rate sliceLength (slice # rest) acc =
     (let start = slice * sliceLength
      in if start \<ge> length layer
         then sliceLoop layer rate sliceLength rest (fst acc @ [replicate FREQ_BINS 0], snd acc)
         else
           (let available = max 64 (min WINDOW_SIZE (length layer - start));
                copied = subarray layer start (start + available);
                segment = copied @ replicate (available - length copied) 0;
                magnitudes = computeSpectrumSegment segment rate
            in sliceLoop layer rate sliceLength rest
                 (fst acc @ [magnitudes], maxLoop magnitudes (snd acc))))"

text \<open>The loop over the layers; the state is the pair (\<^verbatim>\<open>surfaces\<close>, \<^verbatim>\<open>globalMax\<close>).\<close>

primrec surfaceLoop :: "real list \<Rightarrow> real \<Rightarrow> nat \<Rightarrow> nat list \<Rightarrow> SurfaceMatrix list \<times> real \<Rightarrow> SurfaceMatrix list \<times> real" where
  "surfaceLoop windowed rate segmentLength [] acc = acc"
| "surfaceLoop windowed rate segmentLength (surfaceIndex # rest) acc =
     (let offset = surfaceIndex * segmentLength;
          sliceEnd = min (offset + segmentLength) (length windowed);
          layer = subarray windowed offset sliceEnd
      in if layer = [] then surfaceLoop windowed rate segmentLength rest acc
         else
           (let sliceLength = max 1 (length layer div TIME_SLICES);
                out = sliceLoop layer rate sliceLength [0..<TIME_SLICES] ([], snd acc)
            in surfaceLoop windowed rate segmentLength rest (fst acc @ [fst out], snd out)))"

text \<open>The surfaces before normalisation, with the maximum found.\<close>

definition rawSurfaces :: "AudioPayload \<Rightarrow> nat \<Rightarrow> nat \<Rightarrow> SurfaceMatrix list \<times> real" where
  "rawSurfaces payload startSample windowSamples =
     (let end = min (length (samples payload)) (startSample + windowSamples);
          windowed = subarray (samples payload) startSample end;
          segmentLength = max 1 (length windowed div SURFACE_COUNT)
      in surfaceLoop windowed (payloadRate payload) segmentLength [0..<SURFACE_COUNT] ([], 0))"

definition extractSurfacesForWindow :: "AudioPayload \<Rightarrow> nat \<Rightarrow> nat \<Rightarrow> SurfaceMatrix list" where
  "extractSurfacesForWindow payload startSample windowSamples =
     (let end = min (length (samples payload)) (startSample + windowSamples)
      in if end \<le> startSample then []
         else
           (let out = rawSurfaces payload startSample windowSamples;
                surfaces = fst out;
                globalMax = snd out;
                normalizer = (if globalMax = 0 then 1 else globalMax)
            in map (\<lambda>surface. map (\<lambda>row. map (\<lambda>value. jsPow (value / normalizer) 0.85) row) surface)
                 surfaces))"

text \<open>All the values of a surface, and of a list of surfaces.\<close>

definition rowValues :: "SurfaceMatrix \<Rightarrow> real set" where
  "rowValues surface = (\<Union>row\<in>set surface. set row)"

definition surfaceValues :: "SurfaceMatrix list \<Rightarrow> real set" where
  "surfaceValues surfaces = (\<Union>surface\<in>set surfaces. rowValues surface)"

subsection \<open>Cross-fading\<close>

text \<open>An indexed read that may miss: \<^verbatim>\<open>xs[i]\<close> is \<^verbatim>\<open>undefined\<close> outside the array.\<close>

definition nthOpt :: "'a list \<Rightarrow> nat \<Rightarrow> 'a option" where
  "nthOpt xs i = (if i < length xs then Some (xs ! i) else None)"

text \<open>\<^verbatim>\<open>blendSurfaces(from, to, t)\<close>.  A value of \<^verbatim>\<open>from\<close> that is missing counts as 0
  (\<^verbatim>\<open>fromRow?.[colIndex] ?? 0\<close>).\<close>

definition blendSurfaces :: "SurfaceMatrix list \<Rightarrow> SurfaceMatrix list \<Rightarrow> real \<Rightarrow> SurfaceMatrix list" where
  "blendSurfaces fromS toS t =
     (if fromS = [] then toS
      else
        (let clamped = min 1 (max 0 t)
         in map (\<lambda>(surfaceIndex, surface).
                  let fromSurface = nthOpt fromS surfaceIndex
                  in map (\<lambda>(rowIndex, row).
                           let fromRow = (case fromSurface of
                                            None \<Rightarrow> None
                                          | Some fs \<Rightarrow> nthOpt fs rowIndex)
                           in map (\<lambda>(colIndex, value).
                                    let start = (case fromRow of
                                                   None \<Rightarrow> 0
                                                 | Some fr \<Rightarrow>
                                                     (case nthOpt fr colIndex of
                                                        None \<Rightarrow> 0
                                                      | Some x \<Rightarrow> x))
                                    in start + (value - start) * clamped)
                                  (enumerate 0 row))
                         (enumerate 0 surface))
                (enumerate 0 toS)))"

text \<open>The blend task: the state \<^verbatim>\<open>displaySurfaces\<close>, the references
  \<^verbatim>\<open>displayRef\<close> and \<^verbatim>\<open>transitionRef\<close>, and whether an animation frame is
  requested (\<^verbatim>\<open>rafRef\<close>).\<close>

record Transition =
  fromSurfaces :: "SurfaceMatrix list"
  toSurfaces :: "SurfaceMatrix list"
  startTime :: real

record BlendTask =
  displaySurfaces :: "SurfaceMatrix list"
  displayRef :: "SurfaceMatrix list"
  transitionRef :: "Transition option"
  rafRef :: bool

text \<open>The animation callback \<^verbatim>\<open>step\<close> of \<^verbatim>\<open>scheduleBlend\<close>, run at the reading
  \<open>now\<close> of \<^verbatim>\<open>performance.now()\<close>.\<close>

definition step :: "real \<Rightarrow> BlendTask \<Rightarrow> BlendTask" where
  "step now s =
     (case transitionRef s of
        None \<Rightarrow> s\<lparr>rafRef := False\<rparr>
      | Some transition \<Rightarrow>
          (let progress = min ((now - startTime transition) / BLEND_DURATION_MS) 1;
               blended = (if progress \<ge> 1 then toSurfaces transition
                          else blendSurfaces (fromSurfaces transition) (toSurfaces transition) progress)
           in if progress \<ge> 1
              then s\<lparr>displaySurfaces := blended, displayRef := toSurfaces transition,
                     transitionRef := None, rafRef := False\<rparr>
              else s\<lparr>displaySurfaces := blended, rafRef := True\<rparr>))"

definition scheduleBlend :: "real \<Rightarrow> SurfaceMatrix list \<Rightarrow> BlendTask \<Rightarrow> BlendTask" where
  "scheduleBlend now next s =
     (let baseline = (if displayRef s \<noteq> [] then displayRef s else next)
      in s\<lparr>transitionRef := Some \<lparr>fromSurfaces = baseline, toSurfaces = next, startTime = now\<rparr>,
            rafRef := True\<rparr>)"

section \<open>Auxiliary notions and sample inputs\<close>

subsection \<open>Notions used in the statements\<close>

text \<open>The clamped byte value of bin \<open>k\<close> for the window at \<open>startIndex\<close>.\<close>

definition binByte :: "real list \<Rightarrow> int \<Rightarrow> nat \<Rightarrow> real" where
  "binByte cd startIndex k =
     (case dftLoop cd startIndex k [0..<fftSize] (0, 0) of None \<Rightarrow> 0 | Some acc \<Rightarrow> byteValueOf acc)"

text \<open>The state of the analyzer between two calls: the target array has at least
  \<open>FREQUENCY_BINS\<close> slots (\<^verbatim>\<open>analyser.frequencyBinCount\<close> is 1024), the smoothing buffer
  has the same length, the first \<open>FREQUENCY_BINS\<close> entries are bytes and smoothed values
  in the output range, and the bins below the cutoff are zero.\<close>

definition frameOk :: "AudioBuffer \<Rightarrow> nat list \<Rightarrow> real list \<Rightarrow> bool" where
  "frameOk buffer t p \<longleftrightarrow>
     FREQUENCY_BINS \<le> length t \<and> length p = length t
     \<and> (\<forall>k<FREQUENCY_BINS. t ! k \<le> 255 \<and> 0 \<le> p ! k \<and> p ! k \<le> 255)
     \<and> (\<forall>k<cutoffBinOf buffer FREQUENCY_BINS. t ! k = 0)"

text \<open>The state of the variant's analyzer between two calls.\<close>

definition variantFrameOk :: "nat list \<Rightarrow> real list \<Rightarrow> bool" where
  "variantFrameOk t p \<longleftrightarrow>
     VARIANT_FREQUENCY_BINS \<le> length t \<and> length p = length t
     \<and> (\<forall>k<VARIANT_FREQUENCY_BINS. t ! k \<le> 255 \<and> 0 \<le> p ! k \<and> p ! k \<le> 255)"

text \<open>\<open>g\<close> is the maximum of the non-negative values \<open>A\<close>, or 0 when there is none.\<close>

definition maximumOf :: "real set \<Rightarrow> real \<Rightarrow> bool" where
  "maximumOf A g \<longleftrightarrow> 0 \<le> g \<and> (\<forall>v\<in>A. 0 \<le> v \<and> v \<le> g) \<and> (g = 0 \<or> g \<in> A)"

text \<open>The frame in the data array after a sequence of ticks.\<close>

definition frameAfter :: "real list \<Rightarrow> Component \<Rightarrow> nat list" where
  "frameAfter ts st =
     (case ticks ts st of
        None \<Rightarrow> []
      | Some s \<Rightarrow> (case dataArrayRef s of None \<Rightarrow> [] | Some d \<Rightarrow> d))"

subsection \<open>Sample inputs\<close>


text \<open>Ten seconds of silence.\<close>

definition tenSeconds :: AudioBuffer where
  "tenSeconds = \<lparr>sampleRate = 48000, channelData = replicate 480000 0\<rparr>"

definition shortClip :: AudioBuffer where
  "shortClip = \<lparr>sampleRate = 48000, channelData = replicate 1000 0\<rparr>"

text \<open>A row of normalised bins with a single 1, at bin \<open>j\<close>.\<close>

definition impulse :: "nat \<Rightarrow> real list" where
  "impulse j = (replicate FREQUENCY_BINS 0)[j := 1]"

text \<open>A buffer that is silent but for one sample of full amplitude in the middle of the
  first analysis window.\<close>

definition clickBuffer :: AudioBuffer where
  "clickBuffer = \<lparr>sampleRate = 48000, channelData = (replicate 4096 0)[1024 := 1]\<rparr>"

text \<open>A frame of the variant's analyser (256 slots) with full level in bin 0 only.\<close>

definition loudLowBin :: "nat list" where
  "loudLowBin = (replicate 256 0)[0 := 255]"

text \<open>Six samples with a single click.\<close>

definition clickPayload :: AudioPayload where
  "clickPayload = \<lparr>samples = [0, 1, 0, 0, 0, 0], payloadRate = 48000\<rparr>"

text \<open>The component right after mounting, with the asset loaded or not.\<close>

definition freshComponent :: "AudioBuffer option \<Rightarrow> Component" where
  "freshComponent asset =
     \<lparr>audioContextRef = Some Suspended, audioSourceRef = None, audioBufferRef = asset,
      analyserRef = True, audioReadyRef = False, isStartedRef = False,
      dataArrayRef = Some (replicate 1024 0),
      spectrogramTextureRef = Some (replicate (FREQUENCY_BINS * HISTORY_LENGTH * 4) 0),
      prevFrequencyDataRef = None,
      normalizedBinsRef = replicate FREQUENCY_BINS 0,
      smoothedRowRef = replicate FREQUENCY_BINS 0,
      hasSmoothedRowRef = False\<rparr>"

section \<open>Virtual playback clock\<close>

lemma jsTrunc_nonneg: "0 \<le> x \<Longrightarrow> jsTrunc x = \<lfloor>x\<rfloor>"
  by (simp add: jsTrunc_def)

lemma clockOffset_floor:
  assumes "0 \<le> t" and "0 < d"
  shows "clockOffset t d = t - d * of_int \<lfloor>t / d\<rfloor>"
  using assms by (simp add: clockOffset_def jsRemainder_def jsTrunc_nonneg)

lemma clockOffset_period:
  assumes "0 \<le> t" and "0 < d"
  shows "clockOffset (t + d) d = clockOffset t d"
proof -
  have "(t + d) / d = t / d + 1"
    using assms by (simp add: add_divide_distrib)
  then have "\<lfloor>(t + d) / d\<rfloor> = \<lfloor>t / d\<rfloor> + 1"
    by simp
  moreover have "0 \<le> t + d"
    using assms by simp
  ultimately show ?thesis
    using assms by (simp add: clockOffset_floor algebra_simps)
qed

lemma clockOffset_small:
  assumes "0 \<le> t" and "t < d"
  shows "clockOffset t d = t"
proof -
  have "\<lfloor>t / d\<rfloor> = 0"
    using assms by (simp add: floor_eq_iff)
  then show ?thesis
    using assms by (simp add: clockOffset_floor)
qed

lemma clockOffset_nonneg:
  assumes "0 \<le> t" and "0 < d"
  shows "0 \<le> clockOffset t d"
proof -
  have "d * of_int \<lfloor>t / d\<rfloor> \<le> d * (t / d)"
    using assms(2) by (intro mult_left_mono) simp_all
  then have "d * of_int \<lfloor>t / d\<rfloor> \<le> t"
    using assms(2) by simp
  then show ?thesis
    using assms by (simp add: clockOffset_floor)
qed

lemma clockOffset_less:
  assumes "0 \<le> t" and "0 < d"
  shows "clockOffset t d < d"
proof -
  have "t / d < of_int \<lfloor>t / d\<rfloor> + 1"
    by linarith
  then have "d * (t / d) < d * (of_int \<lfloor>t / d\<rfloor> + 1)"
    using assms(2) by (intro mult_strict_left_mono) simp_all
  then have "t < d * (of_int \<lfloor>t / d\<rfloor> + 1)"
    using assms(2) by simp
  then show ?thesis
    using assms by (simp add: clockOffset_floor algebra_simps)
qed

text \<open>
  Claim C2.  A wall-clock reading is a non-negative number of seconds.  For every such
  reading \<open>t\<close> and every duration \<open>d > 0\<close> the clock's offset is \<open>t mod d\<close>, that is
  \<open>t - d * \<lfloor>t / d\<rfloor>\<close>, it lies in \<open>[0, d)\<close>, and it is periodic: the offsets at
  \<open>t\<close> and at \<open>t + d\<close> are equal.  The analysis and the start of the audio source use the
  same offset.  With \<open>d = 10\<close> the reading 12 gives 2, and 9.999 and 10.001 give 9.999 and
  0.001.
\<close>

theorem virtual_clock_periodic:
  assumes "0 \<le> t" and "0 < d"
  shows "clockOffset t d = t - d * of_int \<lfloor>t / d\<rfloor>
       \<and> 0 \<le> clockOffset t d \<and> clockOffset t d < d
       \<and> clockOffset (t + d) d = clockOffset t d
       \<and> (audioContextRef st \<noteq> None \<and> analyserRef st \<and> audioSourceRef st = None
            \<and> audioBufferRef st = Some b
            \<longrightarrow> audioSourceRef (startAudioSource now st) = Some (clockOffset (now / 1000) (duration b))
              \<and> startIndexOf now b = \<lfloor>clockOffset (now / 1000) (duration b) * sampleRate b\<rfloor>)
       \<and> clockOffset 12 10 = 2
       \<and> clockOffset 9.999 10 = 9.999
       \<and> clockOffset 10.001 10 = 0.001"
proof -
  have eq: "clockOffset t d = t - d * of_int \<lfloor>t / d\<rfloor>"
    using assms by (rule clockOffset_floor)
  have lo: "0 \<le> clockOffset t d"
    using assms by (rule clockOffset_nonneg)
  have hi: "clockOffset t d < d"
    using assms by (rule clockOffset_less)
  have per: "clockOffset (t + d) d = clockOffset t d"
    using assms by (rule clockOffset_period)
  have same: "audioContextRef st \<noteq> None \<and> analyserRef st \<and> audioSourceRef st = None
      \<and> audioBufferRef st = Some b
      \<longrightarrow> audioSourceRef (startAudioSource now st) = Some (clockOffset (now / 1000) (duration b))
        \<and> startIndexOf now b = \<lfloor>clockOffset (now / 1000) (duration b) * sampleRate b\<rfloor>"
    by (simp add: startAudioSource_def startIndexOf_def Let_def)
  have "clockOffset (2 + 10) 10 = clockOffset 2 10"
    by (rule clockOffset_period) simp_all
  then have e1: "clockOffset 12 10 = 2"
    by (simp add: clockOffset_small)
  have e2: "clockOffset 9.999 10 = 9.999"
    by (rule clockOffset_small) simp_all
  have "clockOffset (0.001 + 10) 10 = clockOffset 0.001 10"
    by (rule clockOffset_period) simp_all
  then have e3: "clockOffset 10.001 10 = 0.001"
    by (simp add: clockOffset_small)
  from eq lo hi per same e1 e2 e3 show ?thesis
    by blast
qed

theorem virtual_clock_periodic_witness:
  "(0::real) \<le> 12 \<and> (0::real) < 10
   \<and> clockOffset (12 + 10) 10 = clockOffset 12 10 \<and> clockOffset 12 10 = 2
   \<and> duration tenSeconds = 10
   \<and> audioSourceRef (startAudioSource 12000 (freshComponent (Some tenSeconds))) = Some 2
   \<and> startIndexOf 12000 tenSeconds = 96000"
  using virtual_clock_periodic [of 12 10 "freshComponent (Some tenSeconds)" tenSeconds 12000]
  by (simp add: freshComponent_def tenSeconds_def duration_def)

section \<open>The row loop and the texture\<close>

lemma copyWithin_shift:
  assumes "r \<le> length xs"
  shows "copyWithin xs (int r) 0 (int (length xs) - int r) = take r xs @ take (length xs - r) xs"
proof -
  have "nat (int (length xs) - int r) = length xs - r"
    using assms by simp
  then show ?thesis
    using assms by (simp add: copyWithin_def relativeIndex_def Let_def)
qed

lemma rowLoop_fst_length: "length (fst (rowLoop nb h js acc)) = length (fst acc)"
  by (induction js arbitrary: acc) (simp_all add: Let_def)

lemma rowLoop_snd_length: "length (snd (rowLoop nb h js acc)) = length (snd acc)"
  by (induction js arbitrary: acc) (simp_all add: Let_def)

lemma rowLoop_fst_nth:
  assumes "distinct js" and "j < length sr"
  shows "fst (rowLoop nb h js (sr, data)) ! j =
         (if j \<in> set js then finalValue h (sr ! j) (blendedFreq nb j) else sr ! j)"
  using assms
proof (induction js arbitrary: sr data)
  case Nil
  then show ?case by simp
next
  case (Cons i js)
  have neq: "j \<in> set js \<Longrightarrow> i \<noteq> j"
    using Cons.prems(1) by auto
  have len: "j < length (sr[i := finalValue h (sr ! i) (blendedFreq nb i)])"
    using Cons.prems(2) by simp
  show ?case
    using Cons.prems neq Cons.IH [OF _ len]
    by (auto simp add: Let_def nth_list_update)
qed

lemma pixel_update_nth:
  assumes "q < length data"
  shows "data[p * 4 := b0, p * 4 + 1 := b1, p * 4 + 2 := b2, p * 4 + 3 := b3] ! q =
         (if q div 4 = p then [b0, b1, b2, b3] ! (q mod 4) else data ! q)"
proof (cases "q div 4 = p")
  case True
  define r where "r = q mod 4"
  have q: "q = p * 4 + r"
    using True div_mult_mod_eq [of q 4] by (simp add: r_def)
  have "r < 4"
    by (simp add: r_def)
  then have "r = 0 \<or> r = 1 \<or> r = 2 \<or> r = 3"
    by linarith
  then show ?thesis
    using assms True r_def [symmetric] q by (elim disjE) (simp_all add: nth_list_update)
next
  case False
  have "(p * 4) div 4 = p" "(p * 4 + 1) div 4 = p" "(p * 4 + 2) div 4 = p" "(p * 4 + 3) div 4 = p"
    by simp_all
  then have "q \<noteq> p * 4" "q \<noteq> p * 4 + 1" "q \<noteq> p * 4 + 2" "q \<noteq> p * 4 + 3"
    using False by blast+
  then show ?thesis
    using False by (simp add: nth_list_update)
qed

lemma rowLoop_snd_nth:
  assumes "distinct js" and "\<forall>i\<in>set js. i < FREQUENCY_BINS" and "q < length data"
  shows "snd (rowLoop nb h js (sr, data)) ! q =
         (if q div 4 < FREQUENCY_BINS \<and> FREQUENCY_BINS - 1 - q div 4 \<in> set js
          then pixelBytes (finalValue h (sr ! (FREQUENCY_BINS - 1 - q div 4))
                             (blendedFreq nb (FREQUENCY_BINS - 1 - q div 4))) ! (q mod 4)
          else data ! q)"
  using assms
proof (induction js arbitrary: sr data)
  case Nil
  then show ?case by simp
next
  case (Cons i js)
  let ?v = "finalValue h (sr ! i) (blendedFreq nb i)"
  let ?p = "FREQUENCY_BINS - 1 - i"
  let ?data = "data[?p * 4 := pixelBytes ?v ! 0, ?p * 4 + 1 := pixelBytes ?v ! 1,
                    ?p * 4 + 2 := pixelBytes ?v ! 2, ?p * 4 + 3 := pixelBytes ?v ! 3]"
  have i: "i < FREQUENCY_BINS" "i \<notin> set js" "distinct js" "\<forall>i\<in>set js. i < FREQUENCY_BINS"
    using Cons.prems by auto
  have step: "rowLoop nb h (i # js) (sr, data) = rowLoop nb h js (sr[i := ?v], ?data)"
    by (simp add: Let_def)
  have q': "q < length ?data"
    using Cons.prems by simp
  have IH: "snd (rowLoop nb h js (sr[i := ?v], ?data)) ! q =
         (if q div 4 < FREQUENCY_BINS \<and> FREQUENCY_BINS - 1 - q div 4 \<in> set js
          then pixelBytes (finalValue h (sr[i := ?v] ! (FREQUENCY_BINS - 1 - q div 4))
                             (blendedFreq nb (FREQUENCY_BINS - 1 - q div 4))) ! (q mod 4)
          else ?data ! q)"
    using Cons.IH [OF i(3) i(4) q'] .
  have upd: "?data ! q = (if q div 4 = ?p then pixelBytes ?v ! (q mod 4) else data ! q)"
  proof -
    have "?data ! q = (if q div 4 = ?p then [pixelBytes ?v ! 0, pixelBytes ?v ! 1, pixelBytes ?v ! 2, pixelBytes ?v ! 3] ! (q mod 4) else data ! q)"
      using Cons.prems(3) by (rule pixel_update_nth)
    moreover have "[pixelBytes ?v ! 0, pixelBytes ?v ! 1, pixelBytes ?v ! 2, pixelBytes ?v ! 3] = pixelBytes ?v"
      by (simp add: pixelBytes_def)
    ultimately show ?thesis by simp
  qed
  have inj: "q div 4 = ?p \<longleftrightarrow> q div 4 < FREQUENCY_BINS \<and> FREQUENCY_BINS - 1 - q div 4 = i"
    using i(1) by auto
  show ?case
    unfolding step IH upd using i(2) inj by (auto simp add: nth_list_update)
qed

lemma commitRow_fields:
  "dataArrayRef (commitRow d tex st) = dataArrayRef st"
  "audioBufferRef (commitRow d tex st) = audioBufferRef st"
  "prevFrequencyDataRef (commitRow d tex st) = prevFrequencyDataRef st"
  "hasSmoothedRowRef (commitRow d tex st)"
  "normalizedBinsRef (commitRow d tex st) = normalizeBins d"
  "length (smoothedRowRef (commitRow d tex st)) = length (smoothedRowRef st)"
  by (simp_all add: commitRow_def Let_def rowLoop_fst_length)


lemma commitRow_texture:
  assumes "length tex = FREQUENCY_BINS * HISTORY_LENGTH * 4"
    and "length (smoothedRowRef st) = FREQUENCY_BINS"
  shows "\<exists>tex'. spectrogramTextureRef (commitRow d tex st) = Some tex'
           \<and> length tex' = length tex
           \<and> (\<forall>q < length tex. tex' ! q =
                 (if q < ROW_BYTE_SIZE
                  then pixelBytes (smoothedRowRef (commitRow d tex st) ! (FREQUENCY_BINS - 1 - q div 4)) ! (q mod 4)
                  else tex ! (q - ROW_BYTE_SIZE)))"
proof -
  let ?shifted = "take ROW_BYTE_SIZE tex @ take (length tex - ROW_BYTE_SIZE) tex"
  let ?nb = "normalizeBins d"
  let ?out = "rowLoop ?nb (hasSmoothedRowRef st) [0..<FREQUENCY_BINS] (smoothedRowRef st, ?shifted)"
  have row: "ROW_BYTE_SIZE \<le> length tex"
    using assms(1) by (simp add: ROW_BYTE_SIZE_def HISTORY_LENGTH_def)
  then have sh: "copyWithin tex (int ROW_BYTE_SIZE) 0 (int (length tex) - int ROW_BYTE_SIZE) = ?shifted"
    by (rule copyWithin_shift)
  have tex': "spectrogramTextureRef (commitRow d tex st) = Some (snd ?out)"
    and sr': "smoothedRowRef (commitRow d tex st) = fst ?out"
    by (simp_all add: commitRow_def Let_def sh)
  have len_sh: "length ?shifted = length tex"
    using row by simp
  have len: "length (snd ?out) = length tex"
    by (simp add: rowLoop_snd_length len_sh del: length_append)
  have nth: "snd ?out ! q =
      (if q < ROW_BYTE_SIZE
       then pixelBytes (fst ?out ! (FREQUENCY_BINS - 1 - q div 4)) ! (q mod 4)
       else tex ! (q - ROW_BYTE_SIZE))" if q: "q < length tex" for q
  proof (cases "q < ROW_BYTE_SIZE")
    case True
    then have d4: "q div 4 < FREQUENCY_BINS"
      by (simp add: ROW_BYTE_SIZE_def)
    then have j: "FREQUENCY_BINS - 1 - q div 4 < length (smoothedRowRef st)"
      using assms(2) by simp
    have "snd ?out ! q = pixelBytes (finalValue (hasSmoothedRowRef st)
             (smoothedRowRef st ! (FREQUENCY_BINS - 1 - q div 4))
             (blendedFreq ?nb (FREQUENCY_BINS - 1 - q div 4))) ! (q mod 4)"
      using q d4 len_sh by (subst rowLoop_snd_nth) (simp_all del: length_append)
    also have "\<dots> = pixelBytes (fst ?out ! (FREQUENCY_BINS - 1 - q div 4)) ! (q mod 4)"
      using j d4 by (subst rowLoop_fst_nth) simp_all
    finally show ?thesis
      using True by simp
  next
    case False
    then have d4: "\<not> q div 4 < FREQUENCY_BINS"
      by (simp add: ROW_BYTE_SIZE_def)
    have "snd ?out ! q = ?shifted ! q"
      using q d4 len_sh by (subst rowLoop_snd_nth) (simp_all del: length_append)
    also have "\<dots> = tex ! (q - ROW_BYTE_SIZE)"
      using False row q by (simp add: nth_append)
    finally show ?thesis
      using False by simp
  qed
  show ?thesis
    using tex' sr' len nth by simp
qed

lemma length_pixelBytes: "length (pixelBytes v) = 4"
  by (simp add: pixelBytes_def)

lemma concat_blocks_length:
  assumes "\<And>p. length (f p) = 4"
  shows "length (concat (map f [0..<n])) = 4 * n"
  using assms by (induction n) simp_all

lemma concat_blocks_nth:
  assumes "\<And>p. length (f p) = 4" and "q < 4 * n"
  shows "concat (map f [0..<n]) ! q = f (q div 4) ! (q mod 4)"
  using assms(2)
proof (induction n)
  case 0
  then show ?case by simp
next
  case (Suc n)
  have len: "length (concat (map f [0..<n])) = 4 * n"
    using assms(1) by (rule concat_blocks_length)
  show ?case
  proof (cases "q < 4 * n")
    case True
    then show ?thesis
      using Suc.IH len by (simp add: nth_append)
  next
    case False
    then have "q div 4 = n" "q mod 4 = q - 4 * n"
      using Suc.prems by presburger+
    then show ?thesis
      using False len by (simp add: nth_append)
  qed
qed

lemma commitRow_rows:
  assumes "length tex = FREQUENCY_BINS * HISTORY_LENGTH * 4"
    and "length (smoothedRowRef st) = FREQUENCY_BINS"
  shows "length (textureData (commitRow d tex st)) = length tex"
    and "historyRow (textureData (commitRow d tex st)) 0 = committedRow (commitRow d tex st)"
    and "t + 1 < HISTORY_LENGTH \<Longrightarrow>
           historyRow (textureData (commitRow d tex st)) (t + 1) = historyRow tex t"
proof -
  let ?st = "commitRow d tex st"
  obtain tex' where tex': "spectrogramTextureRef ?st = Some tex'" "length tex' = length tex"
    and nth: "\<And>q. q < length tex \<Longrightarrow> tex' ! q =
                 (if q < ROW_BYTE_SIZE
                  then pixelBytes (smoothedRowRef ?st ! (FREQUENCY_BINS - 1 - q div 4)) ! (q mod 4)
                  else tex ! (q - ROW_BYTE_SIZE))"
    using commitRow_texture [OF assms, of d] by blast
  have td: "textureData ?st = tex'"
    using tex'(1) by (simp add: textureData_def)
  show "length (textureData ?st) = length tex"
    using td tex'(2) by simp
  have row: "ROW_BYTE_SIZE \<le> length tex" "ROW_BYTE_SIZE = 4 * FREQUENCY_BINS"
    using assms(1) by (simp_all add: ROW_BYTE_SIZE_def HISTORY_LENGTH_def)
  show "historyRow (textureData ?st) 0 = committedRow ?st"
  proof (rule nth_equalityI)
    show "length (historyRow (textureData ?st) 0) = length (committedRow ?st)"
      using row tex'(2) td
      by (simp add: historyRow_def committedRow_def concat_blocks_length length_pixelBytes)
  next
    fix q assume "q < length (historyRow (textureData ?st) 0)"
    then have q: "q < ROW_BYTE_SIZE"
      by (simp add: historyRow_def)
    then have "historyRow (textureData ?st) 0 ! q = tex' ! q"
      by (simp add: historyRow_def td)
    also have "\<dots> = pixelBytes (smoothedRowRef ?st ! (FREQUENCY_BINS - 1 - q div 4)) ! (q mod 4)"
      using q row nth [of q] by simp
    also have "\<dots> = committedRow ?st ! q"
      using q row(2) unfolding committedRow_def
      by (subst concat_blocks_nth) (simp_all add: length_pixelBytes)
    finally show "historyRow (textureData ?st) 0 ! q = committedRow ?st ! q" .
  qed
  show "historyRow (textureData ?st) (t + 1) = historyRow tex t" if t: "t + 1 < HISTORY_LENGTH"
  proof (rule nth_equalityI)
    have "(t + 2) * ROW_BYTE_SIZE \<le> HISTORY_LENGTH * ROW_BYTE_SIZE"
      using t by (intro mult_right_mono) simp_all
    then have fit: "(t + 2) * ROW_BYTE_SIZE \<le> length tex"
      using assms(1) by (simp add: ROW_BYTE_SIZE_def mult.commute mult.left_commute)
    then have l1: "length (historyRow tex' (t + 1)) = ROW_BYTE_SIZE"
      using tex'(2) by (simp add: historyRow_def)
    have l2: "length (historyRow tex t) = ROW_BYTE_SIZE"
      using fit by (simp add: historyRow_def)
    show "length (historyRow (textureData ?st) (t + 1)) = length (historyRow tex t)"
      using l1 l2 td by simp
    fix q assume "q < length (historyRow (textureData ?st) (t + 1))"
    then have q: "q < ROW_BYTE_SIZE"
      using l1 td by simp
    then have in1: "(t + 1) * ROW_BYTE_SIZE + q < length tex"
      using fit by simp
    have "historyRow (textureData ?st) (t + 1) ! q = tex' ! ((t + 1) * ROW_BYTE_SIZE + q)"
      using q in1 tex'(2) by (simp add: historyRow_def td)
    also have "\<dots> = tex ! (t * ROW_BYTE_SIZE + q)"
      using nth [OF in1] by simp
    also have "\<dots> = historyRow tex t ! q"
      using q in1 by (simp add: historyRow_def)
    finally show "historyRow (textureData ?st) (t + 1) ! q = historyRow tex t ! q" .
  qed
qed

lemma updateSpectrogram_commit:
  assumes "updateSpectrogram now st = Some st'" and "mounted st"
  shows "\<exists>d s. st' = commitRow d (textureData st) s
           \<and> dataArrayRef s = Some d
           \<and> smoothedRowRef s = smoothedRowRef st
           \<and> hasSmoothedRowRef s = hasSmoothedRowRef st"
proof -
  obtain d0 tex where d0: "dataArrayRef st = Some d0" and tex: "spectrogramTextureRef st = Some tex"
    using assms(2) by (auto simp add: mounted_def split: option.splits)
  have td: "textureData st = tex"
    using tex by (simp add: textureData_def)
  show ?thesis
  proof (cases "audioBufferRef st")
    case None
    then have "st' = commitRow d0 tex st"
      using assms(1) d0 tex by (simp add: updateSpectrogram_def)
    then show ?thesis
      using d0 td by blast
  next
    case (Some buffer)
    let ?a = "computeFrequencyData now buffer d0 (prevFrequencyDataRef st)"
    have "\<exists>t p. st' = commitRow t tex (st\<lparr>dataArrayRef := Some t, prevFrequencyDataRef := Some p\<rparr>)"
      using assms(1) d0 tex Some
      by (cases ?a) (auto simp add: updateSpectrogram_def)
    then obtain t p where "st' = commitRow t tex (st\<lparr>dataArrayRef := Some t, prevFrequencyDataRef := Some p\<rparr>)"
      by blast
    then show ?thesis
      using td by (intro exI [of _ t] exI [of _ "st\<lparr>dataArrayRef := Some t, prevFrequencyDataRef := Some p\<rparr>"]) simp
  qed
qed

lemma updateSpectrogram_rows:
  assumes "updateSpectrogram now st = Some st'" and "mounted st"
  shows "mounted st'"
    and "historyRow (textureData st') 0 = committedRow st'"
    and "t + 1 < HISTORY_LENGTH \<Longrightarrow> historyRow (textureData st') (t + 1) = historyRow (textureData st) t"
proof -
  obtain d s where st': "st' = commitRow d (textureData st) s" and s: "dataArrayRef s = Some d"
    "smoothedRowRef s = smoothedRowRef st"
    using updateSpectrogram_commit [OF assms] by blast
  have len: "length (textureData st) = FREQUENCY_BINS * HISTORY_LENGTH * 4"
    "length (smoothedRowRef s) = FREQUENCY_BINS"
    using assms(2) s(2) by (auto simp add: mounted_def textureData_def split: option.splits)
  have l': "length (textureData st') = length (textureData st)"
    unfolding st' using len by (rule commitRow_rows(1))
  have "spectrogramTextureRef st' \<noteq> None"
    unfolding st' by (simp add: commitRow_def Let_def)
  then show "mounted st'"
    using l' len s(1) unfolding st'
    by (auto simp add: mounted_def textureData_def commitRow_fields split: option.splits)
  show "historyRow (textureData st') 0 = committedRow st'"
    unfolding st' using len by (rule commitRow_rows(2))
  show "historyRow (textureData st') (t + 1) = historyRow (textureData st) t" if "t + 1 < HISTORY_LENGTH"
    unfolding st' using len that by (rule commitRow_rows(3))
qed

lemma ticks_rows:
  assumes "ticks ts st = Some st'" and "mounted st" and "t < HISTORY_LENGTH"
  shows "mounted st' \<and>
         (if t < length ts
          then \<exists>s. ticks (take (length ts - t) ts) st = Some s \<and> historyRow (textureData st') t = committedRow s
          else historyRow (textureData st') t = historyRow (textureData st) (t - length ts))"
  using assms
proof (induction ts arbitrary: st)
  case Nil
  then show ?case by simp
next
  case (Cons now rest)
  from Cons.prems(1) obtain s1 where s1: "updateSpectrogram now st = Some s1" and rest: "ticks rest s1 = Some st'"
    by (auto split: option.splits)
  have m1: "mounted s1"
    using s1 Cons.prems(2) by (rule updateSpectrogram_rows(1))
  have IH: "mounted st' \<and>
         (if t < length rest
          then \<exists>s. ticks (take (length rest - t) rest) s1 = Some s \<and> historyRow (textureData st') t = committedRow s
          else historyRow (textureData st') t = historyRow (textureData s1) (t - length rest))"
    using Cons.IH [OF rest m1 Cons.prems(3)] .
  show ?case
  proof (cases "t < length rest")
    case True
    then obtain s where s: "ticks (take (length rest - t) rest) s1 = Some s"
      "historyRow (textureData st') t = committedRow s"
      using IH by auto
    have "take (length (now # rest) - t) (now # rest) = now # take (length rest - t) rest"
      using True by (simp add: Suc_diff_le take_Cons')
    then have "ticks (take (length (now # rest) - t) (now # rest)) st = Some s"
      using s1 s(1) by simp
    then show ?thesis
      using IH s(2) True by auto
  next
    case False
    then have eq: "historyRow (textureData st') t = historyRow (textureData s1) (t - length rest)"
      using IH by simp
    show ?thesis
    proof (cases "t = length rest")
      case True
      then have "historyRow (textureData st') t = committedRow s1"
        using eq updateSpectrogram_rows(2) [OF s1 Cons.prems(2)] by simp
      moreover have "ticks (take (length (now # rest) - t) (now # rest)) st = Some s1"
        using True s1 by simp
      ultimately show ?thesis
        using IH True by auto
    next
      case neq: False
      then obtain u where u: "t - length rest = u + 1"
        using False by (metis Suc_eq_plus1 Suc_diff_Suc linorder_neqE_nat)
      then have "u + 1 < HISTORY_LENGTH"
        using Cons.prems(3) by simp
      then have "historyRow (textureData s1) (u + 1) = historyRow (textureData st) u"
        using updateSpectrogram_rows(3) [OF s1 Cons.prems(2)] by simp
      moreover have "u = t - length (now # rest)"
        using u by simp
      ultimately show ?thesis
        using IH eq u False neq by auto
    qed
  qed
qed

section \<open>Windowed frequency analyzer\<close>

lemma duration_pos: "wellFormed b \<Longrightarrow> 0 < duration b"
  by (simp add: wellFormed_def duration_def)

lemma startIndexOf_nonneg:
  assumes "wellFormed b" and "0 \<le> now"
  shows "0 \<le> startIndexOf now b"
proof -
  have "0 \<le> clockOffset (now / 1000) (duration b)"
    using assms by (intro clockOffset_nonneg duration_pos) simp_all
  moreover have "0 < sampleRate b"
    using assms(1) by (simp add: wellFormed_def)
  ultimately show ?thesis
    by (simp add: startIndexOf_def Let_def)
qed

lemma startIndexOf_less:
  assumes "wellFormed b" and "0 \<le> now"
  shows "startIndexOf now b < int (length (channelData b))"
proof -
  have sr: "0 < sampleRate b"
    using assms(1) by (simp add: wellFormed_def)
  have "clockOffset (now / 1000) (duration b) < duration b"
    using assms by (intro clockOffset_less duration_pos) simp_all
  then have "clockOffset (now / 1000) (duration b) * sampleRate b < duration b * sampleRate b"
    using sr by simp
  also have "duration b * sampleRate b = real (length (channelData b))"
    using sr by (simp add: duration_def)
  finally show ?thesis
    by (simp add: startIndexOf_def Let_def floor_less_iff)
qed

lemma dftLoop_Some:
  assumes "0 \<le> s" and "\<forall>n\<in>set ns. s + int n < int (length cd)"
  shows "\<exists>acc'. dftLoop cd s k ns acc = Some acc'"
  using assms(2)
proof (induction ns arbitrary: acc)
  case Nil
  then show ?case by simp
next
  case (Cons n ns)
  then show ?case
    using assms(1) by (simp add: sampleAt_def Let_def)
qed

lemma dftLoop_window:
  assumes "0 \<le> s" and "s + int fftSize \<le> int (length cd)"
  shows "\<exists>acc'. dftLoop cd s k [0..<fftSize] (0, 0) = Some acc'"
  using assms by (intro dftLoop_Some) auto

lemma byteValueOf_range: "0 \<le> byteValueOf acc \<and> byteValueOf acc \<le> 255"
  by (simp add: byteValueOf_def Let_def)

lemma binByte_range: "0 \<le> binByte cd s k \<and> binByte cd s k \<le> 255"
  using byteValueOf_range by (simp add: binByte_def split: option.splits)


lemma toUint8_floor: "0 \<le> x \<Longrightarrow> x < 256 \<Longrightarrow> toUint8 x = nat \<lfloor>x\<rfloor>"
proof -
  assume x: "0 \<le> x" "x < 256"
  then have "0 \<le> \<lfloor>x\<rfloor>" "\<lfloor>x\<rfloor> < 256"
    by (simp_all add: floor_less_iff)
  then show ?thesis
    using x by (simp add: toUint8_def jsTrunc_def)
qed

lemma toUint8_le: "toUint8 x \<le> 255"
proof -
  have "jsTrunc x mod 256 < 256"
    by simp
  then show ?thesis
    unfolding toUint8_def by linarith
qed

lemma fillZero_length: "length (fillZero xs e) = length xs"
  by (simp add: fillZero_def)

lemma fillZero_nth:
  assumes "k < length xs"
  shows "fillZero xs e ! k = (if k < e then 0 else xs ! k)"
  using assms by (auto simp add: fillZero_def nth_append min_def)

lemma binLoop_result:
  assumes "0 \<le> s" and "s + int fftSize \<le> int (length cd)" and "distinct ks"
  shows "\<exists>t' p'. binLoop cd s ks (t, p) = Some (t', p')
           \<and> length t' = length t \<and> length p' = length p
           \<and> (\<forall>k<length p. p' ! k =
                 (if k \<in> set ks
                  then p ! k * SMOOTHING_CONSTANT + binByte cd s k * (1 - SMOOTHING_CONSTANT)
                  else p ! k))
           \<and> (\<forall>k<length t. t' ! k =
                 (if k \<in> set ks
                  then toUint8 (p ! k * SMOOTHING_CONSTANT + binByte cd s k * (1 - SMOOTHING_CONSTANT))
                  else t ! k))"
  using assms(3)
proof (induction ks arbitrary: t p)
  case Nil
  then show ?case by simp
next
  case (Cons k ks)
  obtain acc where acc: "dftLoop cd s k [0..<fftSize] (0, 0) = Some acc"
    using dftLoop_window [OF assms(1,2)] by blast
  then have bb: "byteValueOf acc = binByte cd s k"
    by (simp add: binByte_def)
  let ?v = "p ! k * SMOOTHING_CONSTANT + binByte cd s k * (1 - SMOOTHING_CONSTANT)"
  have step: "binLoop cd s (k # ks) (t, p) = binLoop cd s ks (t[k := toUint8 ?v], p[k := ?v])"
    using acc bb by (simp add: Let_def)
  have d: "distinct ks" "k \<notin> set ks"
    using Cons.prems by simp_all
  obtain t' p' where r: "binLoop cd s ks (t[k := toUint8 ?v], p[k := ?v]) = Some (t', p')"
    "length t' = length t" "length p' = length p"
    and pn: "\<And>j. j < length p \<Longrightarrow> p' ! j =
                 (if j \<in> set ks
                  then p[k := ?v] ! j * SMOOTHING_CONSTANT + binByte cd s j * (1 - SMOOTHING_CONSTANT)
                  else p[k := ?v] ! j)"
    and tn: "\<And>j. j < length t \<Longrightarrow> t' ! j =
                 (if j \<in> set ks
                  then toUint8 (p[k := ?v] ! j * SMOOTHING_CONSTANT + binByte cd s j * (1 - SMOOTHING_CONSTANT))
                  else t[k := toUint8 ?v] ! j)"
    using Cons.IH [OF d(1), of "t[k := toUint8 ?v]" "p[k := ?v]"] by auto
  have pn': "p' ! j = (if j \<in> set (k # ks)
                  then p ! j * SMOOTHING_CONSTANT + binByte cd s j * (1 - SMOOTHING_CONSTANT)
                  else p ! j)" if "j < length p" for j
  proof -
    have "j \<in> set ks \<Longrightarrow> k \<noteq> j"
      using d(2) by auto
    then show ?thesis
      using pn [OF that] that by (auto simp add: nth_list_update)
  qed
  have tn': "t' ! j = (if j \<in> set (k # ks)
                  then toUint8 (p ! j * SMOOTHING_CONSTANT + binByte cd s j * (1 - SMOOTHING_CONSTANT))
                  else t ! j)" if "j < length t" for j
  proof -
    have "j \<in> set ks \<Longrightarrow> k \<noteq> j"
      using d(2) by auto
    then show ?thesis
      using tn [OF that] that by (auto simp add: nth_list_update)
  qed
  show ?case
    unfolding step using r pn' tn' by simp
qed

lemma cutoffBinOf_le: "cutoffBinOf buffer b \<le> b"
  unfolding cutoffBinOf_def Let_def by (rule min.cobounded1)

lemma computeFrequencyData_skipped:
  assumes "int (length (channelData buffer)) \<le> startIndexOf now buffer + int fftSize"
  shows "computeFrequencyData now buffer targetArray prevRef
         = Skipped targetArray (prevDataOf targetArray prevRef)"
  using assms by (simp add: computeFrequencyData_def Let_def)

lemma computeFrequencyData_updated:
  assumes "0 \<le> startIndexOf now buffer"
    and "startIndexOf now buffer + int fftSize < int (length (channelData buffer))"
    and "length (prevDataOf targetArray prevRef) = length targetArray"
  shows "\<exists>t p. computeFrequencyData now buffer targetArray prevRef = Updated t p
           \<and> length t = length targetArray \<and> length p = length targetArray
           \<and> (\<forall>k<length targetArray.
                 p ! k = (if k < cutoffBinOf buffer (min FREQUENCY_BINS (length targetArray)) then 0
                          else if k < min FREQUENCY_BINS (length targetArray)
                          then prevDataOf targetArray prevRef ! k * SMOOTHING_CONSTANT
                               + binByte (channelData buffer) (startIndexOf now buffer) k
                                 * (1 - SMOOTHING_CONSTANT)
                          else prevDataOf targetArray prevRef ! k)
               \<and> t ! k = (if k < cutoffBinOf buffer (min FREQUENCY_BINS (length targetArray)) then 0
                          else if k < min FREQUENCY_BINS (length targetArray)
                          then toUint8 (p ! k)
                          else targetArray ! k))"
proof -
  let ?s = "startIndexOf now buffer"
  let ?cd = "channelData buffer"
  let ?pd = "prevDataOf targetArray prevRef"
  let ?b = "min FREQUENCY_BINS (length targetArray)"
  let ?c = "cutoffBinOf buffer ?b"
  let ?t0 = "fillZero targetArray ?c"
  let ?p0 = "fillZero ?pd ?c"
  have cb: "?c \<le> ?b"
    by (rule cutoffBinOf_le)
  have frame: "(if ?c > 0 then (?t0, ?p0) else (targetArray, ?pd)) = (?t0, ?p0)"
    by (simp add: fillZero_def)
  have fit: "?s + int fftSize \<le> int (length ?cd)"
    using assms(2) by simp
  obtain t p where r: "binLoop ?cd ?s [?c..<?b] (?t0, ?p0) = Some (t, p)"
    "length t = length ?t0" "length p = length ?p0"
    and pn: "\<And>k. k < length ?p0 \<Longrightarrow> p ! k =
                 (if k \<in> set [?c..<?b]
                  then ?p0 ! k * SMOOTHING_CONSTANT + binByte ?cd ?s k * (1 - SMOOTHING_CONSTANT)
                  else ?p0 ! k)"
    and tn: "\<And>k. k < length ?t0 \<Longrightarrow> t ! k =
                 (if k \<in> set [?c..<?b]
                  then toUint8 (?p0 ! k * SMOOTHING_CONSTANT + binByte ?cd ?s k * (1 - SMOOTHING_CONSTANT))
                  else ?t0 ! k)"
    using binLoop_result [OF assms(1) fit, of "[?c..<?b]" ?t0 ?p0] by auto
  have res: "computeFrequencyData now buffer targetArray prevRef = Updated t p"
    unfolding computeFrequencyData_def Let_def frame using assms(2) r(1) by simp
  have lens: "length t = length targetArray" "length p = length targetArray"
    using r(2,3) assms(3) by (simp_all add: fillZero_length)
  have vals: "p ! k = (if k < ?c then 0
                          else if k < ?b
                          then ?pd ! k * SMOOTHING_CONSTANT + binByte ?cd ?s k * (1 - SMOOTHING_CONSTANT)
                          else ?pd ! k)
               \<and> t ! k = (if k < ?c then 0 else if k < ?b then toUint8 (p ! k) else targetArray ! k)"
    if k: "k < length targetArray" for k
  proof -
    have kp: "k < length ?p0" "k < length ?t0" "k < length ?pd"
      using k assms(3) by (simp_all add: fillZero_length)
    have p0: "?p0 ! k = (if k < ?c then 0 else ?pd ! k)"
      using kp(3) by (rule fillZero_nth)
    have t0: "?t0 ! k = (if k < ?c then 0 else targetArray ! k)"
      using k by (rule fillZero_nth)
    show ?thesis
      using pn [OF kp(1)] tn [OF kp(2)] p0 t0 cb by auto
  qed
  show ?thesis
    using res lens vals by blast
qed

lemma frameOk_bins:
  assumes "frameOk buffer t p"
  shows "min FREQUENCY_BINS (length t) = FREQUENCY_BINS"
  using assms by (simp add: frameOk_def)


lemma computeFrequencyData_defined:
  assumes "wellFormed buffer" and "0 \<le> now"
  shows "computeFrequencyData now buffer targetArray prevRef \<noteq> UndefinedRead"
proof (cases "int (length (channelData buffer)) \<le> startIndexOf now buffer + int fftSize")
  case True
  then show ?thesis
    by (simp add: computeFrequencyData_skipped)
next
  case False
  let ?s = "startIndexOf now buffer"
  let ?b = "min FREQUENCY_BINS (length targetArray)"
  let ?c = "cutoffBinOf buffer ?b"
  have s: "0 \<le> ?s"
    using assms by (rule startIndexOf_nonneg)
  have fit: "?s + int fftSize \<le> int (length (channelData buffer))"
    using False by simp
  define frame where "frame = (if ?c > 0
       then (fillZero targetArray ?c, fillZero (prevDataOf targetArray prevRef) ?c)
       else (targetArray, prevDataOf targetArray prevRef))"
  obtain out where "binLoop (channelData buffer) ?s [?c..<?b] frame = Some out"
    using binLoop_result [OF s fit, of "[?c..<?b]" "fst frame" "snd frame"] by auto
  then show ?thesis
    unfolding computeFrequencyData_def Let_def frame_def [symmetric] using False by simp
qed

lemma updateSpectrogram_defined:
  assumes "\<forall>b. audioBufferRef st = Some b \<longrightarrow> wellFormed b" and "0 \<le> now"
  shows "\<exists>st'. updateSpectrogram now st = Some st' \<and> audioBufferRef st' = audioBufferRef st"
proof (cases "audioBufferRef st")
  case None
  then show ?thesis
    by (simp add: updateSpectrogram_def commitRow_fields split: option.splits)
next
  case (Some buffer)
  then have wf: "wellFormed buffer"
    using assms(1) by simp
  show ?thesis
  proof (cases "dataArrayRef st")
    case None
    then show ?thesis
      by (simp add: updateSpectrogram_def)
  next
    case d: (Some d)
    show ?thesis
    proof (cases "spectrogramTextureRef st")
      case None
      then show ?thesis
        using d by (simp add: updateSpectrogram_def)
    next
      case tex: (Some tex)
      show ?thesis
        using computeFrequencyData_defined [OF wf assms(2), of d "prevFrequencyDataRef st"] d tex Some
        by (cases "computeFrequencyData now buffer d (prevFrequencyDataRef st)")
           (simp_all add: updateSpectrogram_def commitRow_fields)
    qed
  qed
qed

lemma ticks_defined:
  assumes "\<forall>b. audioBufferRef st = Some b \<longrightarrow> wellFormed b" and "\<forall>now\<in>set ts. 0 \<le> now"
  shows "\<exists>st'. ticks ts st = Some st'"
  using assms
proof (induction ts arbitrary: st)
  case Nil
  then show ?case by simp
next
  case (Cons now rest)
  obtain s1 where s1: "updateSpectrogram now st = Some s1" "audioBufferRef s1 = audioBufferRef st"
    using updateSpectrogram_defined [of st now] Cons.prems by auto
  then have "\<exists>st'. ticks rest s1 = Some st'"
    using Cons.prems by (intro Cons.IH) simp_all
  then show ?case
    using s1(1) by simp
qed


lemma startIndexOf_zero: "startIndexOf 0 b = 0"
  by (simp add: startIndexOf_def clockOffset_def jsRemainder_def jsTrunc_def)



text \<open>
  Claim C3.  If the window would read past the end of the sample buffer (indeed as soon as
  it reaches the end), \<^verbatim>\<open>computeFrequencyData\<close> returns at the safety check: the target
  array is the one it was given, the smoothing buffer keeps its contents (it is only
  allocated if it was missing), and the tick goes on with the retained frame.  No call
  reads a sample outside the buffer, whatever the offset.
\<close>

theorem window_past_end_skips:
  assumes "wellFormed buffer" and "0 \<le> now"
  shows "(int (length (channelData buffer)) \<le> startIndexOf now buffer + int fftSize \<longrightarrow>
            computeFrequencyData now buffer targetArray prevRef
              = Skipped targetArray (prevDataOf targetArray prevRef)
            \<and> (prevRef \<noteq> None \<longrightarrow> Some (prevDataOf targetArray prevRef) = prevRef))
       \<and> computeFrequencyData now buffer targetArray prevRef \<noteq> UndefinedRead
       \<and> (int (length (channelData buffer)) \<le> startIndexOf now buffer + int fftSize
            \<and> audioBufferRef st = Some buffer \<and> dataArrayRef st = Some targetArray
            \<and> prevFrequencyDataRef st = prevRef \<and> spectrogramTextureRef st = Some tex \<longrightarrow>
            (\<exists>st'. updateSpectrogram now st = Some st' \<and> dataArrayRef st' = Some targetArray
                  \<and> prevFrequencyDataRef st' = Some (prevDataOf targetArray prevRef)))"
proof -
  have a: "computeFrequencyData now buffer targetArray prevRef
              = Skipped targetArray (prevDataOf targetArray prevRef)"
    if "int (length (channelData buffer)) \<le> startIndexOf now buffer + int fftSize"
    using that by (rule computeFrequencyData_skipped)
  have b: "prevRef \<noteq> None \<longrightarrow> Some (prevDataOf targetArray prevRef) = prevRef"
    by (auto simp add: prevDataOf_def)
  have c: "computeFrequencyData now buffer targetArray prevRef \<noteq> UndefinedRead"
    using assms by (rule computeFrequencyData_defined)
  have d: "\<exists>st'. updateSpectrogram now st = Some st' \<and> dataArrayRef st' = Some targetArray
                  \<and> prevFrequencyDataRef st' = Some (prevDataOf targetArray prevRef)"
    if "int (length (channelData buffer)) \<le> startIndexOf now buffer + int fftSize"
      and "audioBufferRef st = Some buffer" "dataArrayRef st = Some targetArray"
      "prevFrequencyDataRef st = prevRef" "spectrogramTextureRef st = Some tex"
    using that a by (simp add: updateSpectrogram_def commitRow_fields)
  show ?thesis
    using a b c d by blast
qed

theorem window_past_end_skips_witness:
  "wellFormed shortClip \<and> (0::real) \<le> 0
   \<and> int (length (channelData shortClip)) \<le> startIndexOf 0 shortClip + int fftSize
   \<and> computeFrequencyData 0 shortClip (replicate 1024 7) (Some (replicate 1024 7))
       = Skipped (replicate 1024 7) (replicate 1024 7)
   \<and> computeFrequencyData 0 shortClip (replicate 1024 7) (Some (replicate 1024 7)) \<noteq> UndefinedRead
   \<and> (\<exists>st'. updateSpectrogram 0 (freshComponent (Some shortClip)) = Some st'
          \<and> dataArrayRef st' = Some (replicate 1024 0))"
proof -
  have h1: "wellFormed shortClip"
    by (simp add: wellFormed_def shortClip_def)
  have h2: "(0::real) \<le> 0"
    by simp
  have h3: "int (length (channelData shortClip)) \<le> startIndexOf 0 shortClip + int fftSize"
    by (simp add: startIndexOf_zero fftSize_def shortClip_def)
  have a: "computeFrequencyData 0 shortClip (replicate 1024 7) (Some (replicate 1024 7))
       = Skipped (replicate 1024 7) (replicate 1024 7)
     \<and> computeFrequencyData 0 shortClip (replicate 1024 7) (Some (replicate 1024 7)) \<noteq> UndefinedRead"
    using window_past_end_skips [OF h1 h2, of "replicate 1024 7" "Some (replicate 1024 7)"] h3
    by (simp add: prevDataOf_def)
  have b: "\<exists>st'. updateSpectrogram 0 (freshComponent (Some shortClip)) = Some st'
          \<and> dataArrayRef st' = Some (replicate 1024 0)"
    using window_past_end_skips [OF h1 h2, of "replicate 1024 0" None "freshComponent (Some shortClip)"
        "replicate (FREQUENCY_BINS * HISTORY_LENGTH * 4) 0"] h3
    by (auto simp add: freshComponent_def)
  show ?thesis
    using a b h1 h3 by simp
qed

subsection \<open>The analyzer of the 64-bin variant\<close>

text \<open>The analyzer of the variant differs in its constants and has no cutoff; it keeps
  its frame within the byte range and returns at the same safety check.\<close>

lemma variantDftLoop_Some:
  assumes "0 \<le> s" and "\<forall>n\<in>set ns. s + int n < int (length cd)"
  shows "\<exists>acc'. variantDftLoop cd s k ns acc = Some acc'"
  using assms(2)
proof (induction ns arbitrary: acc)
  case Nil
  then show ?case by simp
next
  case (Cons n ns)
  then show ?case
    using assms(1) by (simp add: sampleAt_def Let_def)
qed

lemma variantByteValueOf_range: "0 \<le> variantByteValueOf acc \<and> variantByteValueOf acc \<le> 255"
  by (simp add: variantByteValueOf_def Let_def)

lemma variant_smoothed_range:
  assumes "0 \<le> p" "p \<le> 255" "0 \<le> b" "b \<le> 255"
  shows "0 \<le> p * VARIANT_SMOOTHING_CONSTANT + b * (1 - VARIANT_SMOOTHING_CONSTANT)"
    and "p * VARIANT_SMOOTHING_CONSTANT + b * (1 - VARIANT_SMOOTHING_CONSTANT) \<le> 255"
  using assms by (simp_all add: VARIANT_SMOOTHING_CONSTANT_def)

lemma variantBinLoop_result:
  assumes "0 \<le> s" and "s + int variantFftSize \<le> int (length cd)" and "distinct ks"
    and "length p = length t"
    and "\<forall>k<length t. k \<notin> set ks \<or> (0 \<le> p ! k \<and> p ! k \<le> 255)"
  shows "\<exists>t' p'. variantBinLoop cd s ks (t, p) = Some (t', p')
           \<and> length t' = length t \<and> length p' = length t
           \<and> (\<forall>k<length t. if k \<in> set ks
                  then t' ! k = toUint8 (p' ! k) \<and> 0 \<le> p' ! k \<and> p' ! k \<le> 255
                  else t' ! k = t ! k \<and> p' ! k = p ! k)"
  using assms(3,4,5)
proof (induction ks arbitrary: t p)
  case Nil
  then show ?case by simp
next
  case (Cons k ks)
  have "\<forall>n\<in>set [0..<variantFftSize]. s + int n < int (length cd)"
    using assms(2) by auto
  then obtain acc where acc: "variantDftLoop cd s k [0..<variantFftSize] (0, 0) = Some acc"
    using variantDftLoop_Some [OF assms(1)] by blast
  let ?v = "p ! k * VARIANT_SMOOTHING_CONSTANT + variantByteValueOf acc * (1 - VARIANT_SMOOTHING_CONSTANT)"
  have step: "variantBinLoop cd s (k # ks) (t, p) = variantBinLoop cd s ks (t[k := toUint8 ?v], p[k := ?v])"
    using acc by (simp add: Let_def)
  have d: "distinct ks" "k \<notin> set ks"
    using Cons.prems(1) by simp_all
  have len: "length (p[k := ?v]) = length (t[k := toUint8 ?v])"
    using Cons.prems(2) by simp
  have pre: "\<forall>j<length (t[k := toUint8 ?v]). j \<notin> set ks \<or> (0 \<le> p[k := ?v] ! j \<and> p[k := ?v] ! j \<le> 255)"
  proof (intro allI impI)
    fix j assume j: "j < length (t[k := toUint8 ?v])"
    show "j \<notin> set ks \<or> (0 \<le> p[k := ?v] ! j \<and> p[k := ?v] ! j \<le> 255)"
    proof (cases "j \<in> set ks")
      case True
      then have "j \<noteq> k"
        using d(2) by auto
      then show ?thesis
        using Cons.prems(3) j True by auto
    next
      case False
      then show ?thesis by simp
    qed
  qed
  obtain t' p' where r: "variantBinLoop cd s ks (t[k := toUint8 ?v], p[k := ?v]) = Some (t', p')"
    "length t' = length t" "length p' = length t"
    and vals: "\<And>j. j < length t \<Longrightarrow> (if j \<in> set ks
                  then t' ! j = toUint8 (p' ! j) \<and> 0 \<le> p' ! j \<and> p' ! j \<le> 255
                  else t' ! j = t[k := toUint8 ?v] ! j \<and> p' ! j = p[k := ?v] ! j)"
    using Cons.IH [OF d(1) len pre] by auto
  have vals': "if j \<in> set (k # ks)
                  then t' ! j = toUint8 (p' ! j) \<and> 0 \<le> p' ! j \<and> p' ! j \<le> 255
                  else t' ! j = t ! j \<and> p' ! j = p ! j" if j: "j < length t" for j
  proof (cases "j = k")
    case True
    have pk: "0 \<le> p ! k" "p ! k \<le> 255"
      using Cons.prems(3) j True by auto
    have "0 \<le> ?v" "?v \<le> 255"
      using variant_smoothed_range [OF pk] variantByteValueOf_range [of acc] by simp_all
    then show ?thesis
      using vals [OF j] True d(2) j Cons.prems(2) by simp
  next
    case False
    then show ?thesis
      using vals [OF j] by auto
  qed
  show ?case
    unfolding step using r vals' by simp
qed

lemma variant_frame_in_range:
  assumes "wellFormed buffer" and "0 \<le> now"
    and "variantFrameOk targetArray (prevDataOf targetArray prevRef)"
  shows "\<exists>t p. variantComputeFrequencyData now buffer targetArray prevRef
                 = (if startIndexOf now buffer + int variantFftSize < int (length (channelData buffer))
                    then Updated t p else Skipped t p)
           \<and> length (take VARIANT_FREQUENCY_BINS t) = VARIANT_FREQUENCY_BINS
           \<and> (\<forall>k<VARIANT_FREQUENCY_BINS. t ! k \<le> 255 \<and> 0 \<le> p ! k \<and> p ! k \<le> 255)
           \<and> variantFrameOk t p"
proof (cases "startIndexOf now buffer + int variantFftSize < int (length (channelData buffer))")
  case False
  then have "variantComputeFrequencyData now buffer targetArray prevRef
             = Skipped targetArray (prevDataOf targetArray prevRef)"
    by (simp add: variantComputeFrequencyData_def Let_def)
  then show ?thesis
    using False assms(3) by (simp add: variantFrameOk_def)
next
  case True
  let ?s = "startIndexOf now buffer"
  let ?pd = "prevDataOf targetArray prevRef"
  have s: "0 \<le> ?s"
    using assms(1,2) by (rule startIndexOf_nonneg)
  have fit: "?s + int variantFftSize \<le> int (length (channelData buffer))"
    using True by simp
  have bins: "VARIANT_FREQUENCY_BINS \<le> length targetArray" and len: "length ?pd = length targetArray"
    and rng: "\<forall>k<VARIANT_FREQUENCY_BINS. 0 \<le> ?pd ! k \<and> ?pd ! k \<le> 255"
    and bytes: "\<forall>k<VARIANT_FREQUENCY_BINS. targetArray ! k \<le> 255"
    using assms(3) by (simp_all add: variantFrameOk_def)
  have b: "min VARIANT_FREQUENCY_BINS (length targetArray) = VARIANT_FREQUENCY_BINS"
    using bins by simp
  have pre: "\<forall>k<length targetArray. k \<notin> set [0..<VARIANT_FREQUENCY_BINS] \<or> (0 \<le> ?pd ! k \<and> ?pd ! k \<le> 255)"
    using rng by auto
  obtain t p where r: "variantBinLoop (channelData buffer) ?s [0..<VARIANT_FREQUENCY_BINS] (targetArray, ?pd) = Some (t, p)"
    "length t = length targetArray" "length p = length targetArray"
    and vals: "\<And>k. k < length targetArray \<Longrightarrow> (if k \<in> set [0..<VARIANT_FREQUENCY_BINS]
                  then t ! k = toUint8 (p ! k) \<and> 0 \<le> p ! k \<and> p ! k \<le> 255
                  else t ! k = targetArray ! k \<and> p ! k = ?pd ! k)"
    using variantBinLoop_result [OF s fit distinct_upt len pre] by auto
  have res: "variantComputeFrequencyData now buffer targetArray prevRef = Updated t p"
    unfolding variantComputeFrequencyData_def Let_def b using True r(1) by simp
  have ok: "t ! k \<le> 255 \<and> 0 \<le> p ! k \<and> p ! k \<le> 255" if "k < VARIANT_FREQUENCY_BINS" for k
    using vals [of k] that bins toUint8_le [of "p ! k"] by simp
  then have "variantFrameOk t p"
    using r(2,3) bins by (simp add: variantFrameOk_def)
  then show ?thesis
    using res True ok r(2) bins by simp
qed

lemma variant_window_past_end_skips:
  assumes "wellFormed buffer" and "0 \<le> now"
  shows "(int (length (channelData buffer)) \<le> startIndexOf now buffer + int variantFftSize \<longrightarrow>
            variantComputeFrequencyData now buffer targetArray prevRef
              = Skipped targetArray (prevDataOf targetArray prevRef))
       \<and> variantComputeFrequencyData now buffer targetArray prevRef \<noteq> UndefinedRead"
proof (cases "int (length (channelData buffer)) \<le> startIndexOf now buffer + int variantFftSize")
  case True
  then show ?thesis
    by (simp add: variantComputeFrequencyData_def Let_def)
next
  case False
  let ?s = "startIndexOf now buffer"
  let ?b = "min VARIANT_FREQUENCY_BINS (length targetArray)"
  have s: "0 \<le> ?s"
    using assms by (rule startIndexOf_nonneg)
  have fit: "\<forall>n\<in>set [0..<variantFftSize]. ?s + int n < int (length (channelData buffer))"
    using False by auto
  have "\<exists>out. variantBinLoop (channelData buffer) ?s ks frame = Some out" for ks frame
  proof (induction ks arbitrary: frame)
    case Nil
    then show ?case by simp
  next
    case (Cons k ks)
    obtain acc where "variantDftLoop (channelData buffer) ?s k [0..<variantFftSize] (0, 0) = Some acc"
      using variantDftLoop_Some [OF s fit] by blast
    then show ?case
      using Cons.IH by (simp add: Let_def)
  qed
  then obtain out where "variantBinLoop (channelData buffer) ?s [0..<?b]
        (targetArray, prevDataOf targetArray prevRef) = Some out"
    by blast
  then show ?thesis
    using False by (simp add: variantComputeFrequencyData_def Let_def)
qed

section \<open>History buffer\<close>

lemma storedPixel_newest:
  assumes "length tex = FREQUENCY_BINS * HISTORY_LENGTH * 4"
    and "length (smoothedRowRef st) = FREQUENCY_BINS" and "i < FREQUENCY_BINS"
  shows "storedPixel (textureData (commitRow d tex st)) 0 (FREQUENCY_BINS - 1 - i)
         = pixelBytes (smoothedRowRef (commitRow d tex st) ! i)"
proof -
  let ?st = "commitRow d tex st"
  let ?p = "FREQUENCY_BINS - 1 - i"
  obtain tex' where tex': "spectrogramTextureRef ?st = Some tex'" "length tex' = length tex"
    and nth: "\<And>q. q < length tex \<Longrightarrow> tex' ! q =
                 (if q < ROW_BYTE_SIZE
                  then pixelBytes (smoothedRowRef ?st ! (FREQUENCY_BINS - 1 - q div 4)) ! (q mod 4)
                  else tex ! (q - ROW_BYTE_SIZE))"
    using commitRow_texture [OF assms(1,2), of d] by blast
  have td: "textureData ?st = tex'"
    using tex'(1) by (simp add: textureData_def)
  have p: "?p * 4 + 4 \<le> ROW_BYTE_SIZE" "ROW_BYTE_SIZE \<le> length tex"
    using assms(1,3) by (simp_all add: ROW_BYTE_SIZE_def HISTORY_LENGTH_def)
  show ?thesis
  proof (rule nth_equalityI)
    show "length (storedPixel (textureData ?st) 0 ?p) = length (pixelBytes (smoothedRowRef ?st ! i))"
      using p tex'(2) by (simp add: storedPixel_def td length_pixelBytes)
  next
    fix c assume "c < length (storedPixel (textureData ?st) 0 ?p)"
    then have c: "c < 4"
      by (simp add: storedPixel_def)
    then have q: "?p * 4 + c < ROW_BYTE_SIZE" "?p * 4 + c < length tex"
      using p by simp_all
    have dm: "(?p * 4 + c) div 4 = ?p" "(?p * 4 + c) mod 4 = c"
      using c by simp_all
    have flip: "FREQUENCY_BINS - 1 - ?p = i"
      using assms(3) by simp
    have "storedPixel (textureData ?st) 0 ?p ! c = tex' ! (?p * 4 + c)"
      using c q tex'(2) by (simp add: storedPixel_def td)
    also have "\<dots> = pixelBytes (smoothedRowRef ?st ! i) ! c"
      using nth [OF q(2)] q(1) dm flip by simp
    finally show "storedPixel (textureData ?st) 0 ?p ! c = pixelBytes (smoothedRowRef ?st ! i) ! c" .
  qed
qed

text \<open>
  Claim C4.  The history always holds \<open>HISTORY_LENGTH\<close> rows.  After any sequence of ticks,
  row \<open>t\<close> of the texture is the row committed \<open>t\<close> ticks before the last one, for every
  \<open>t\<close> smaller than the number of ticks and than \<open>HISTORY_LENGTH\<close>: row 0 is the row of
  the last tick, the rows follow in temporal order, and rows older than \<open>HISTORY_LENGTH\<close>
  ticks are gone.  A row that no tick has reached yet holds what the texture held
  \<open>length ts\<close> rows earlier: every tick shifts every row by one slot.
\<close>

theorem history_keeps_last_rows:
  assumes "mounted st"
    and "\<forall>b. audioBufferRef st = Some b \<longrightarrow> wellFormed b"
    and "\<forall>now\<in>set ts. 0 \<le> now"
    and "t < HISTORY_LENGTH"
  shows "\<exists>st'. ticks ts st = Some st' \<and> mounted st'
           \<and> length (textureData st') = HISTORY_LENGTH * ROW_BYTE_SIZE
           \<and> (if t < length ts
               then \<exists>s. ticks (take (length ts - t) ts) st = Some s
                        \<and> historyRow (textureData st') t = committedRow s
               else historyRow (textureData st') t = historyRow (textureData st) (t - length ts))"
proof -
  obtain st' where st': "ticks ts st = Some st'"
    using ticks_defined [OF assms(2,3)] by blast
  have r: "mounted st' \<and>
         (if t < length ts
          then \<exists>s. ticks (take (length ts - t) ts) st = Some s \<and> historyRow (textureData st') t = committedRow s
          else historyRow (textureData st') t = historyRow (textureData st) (t - length ts))"
    using st' assms(1,4) by (rule ticks_rows)
  then have "length (textureData st') = HISTORY_LENGTH * ROW_BYTE_SIZE"
    by (auto simp add: mounted_def textureData_def ROW_BYTE_SIZE_def split: option.splits)
  then show ?thesis
    using st' r by blast
qed

lemma mounted_fresh: "mounted (freshComponent asset)"
  by (simp add: mounted_def freshComponent_def)

theorem history_keeps_last_rows_witness:
  "mounted (freshComponent None)
   \<and> audioBufferRef (freshComponent None) = None
   \<and> 1 < HISTORY_LENGTH
   \<and> (\<exists>st' s. ticks [0, 16, 33] (freshComponent None) = Some st'
         \<and> ticks [0, 16] (freshComponent None) = Some s
         \<and> historyRow (textureData st') 1 = committedRow s)"
proof -
  have h1: "mounted (freshComponent None)"
    by (rule mounted_fresh)
  have h2: "\<forall>b. audioBufferRef (freshComponent None) = Some b \<longrightarrow> wellFormed b"
    by (simp add: freshComponent_def)
  have h3: "\<forall>now\<in>set [0, 16, 33]. (0::real) \<le> now"
    by simp
  have h4: "1 < HISTORY_LENGTH"
    by (simp add: HISTORY_LENGTH_def)
  show ?thesis
    using history_keeps_last_rows [OF h1 h2 h3 h4] h1 h4 by (auto simp add: freshComponent_def)
qed

lemma variantRowLoop_length: "length (variantRowLoop d js data) = length data"
  by (induction js arbitrary: data) (simp_all add: Let_def)

lemma variantRowLoop_nth:
  assumes "distinct js" and "q < length data"
  shows "variantRowLoop d js data ! q =
         (if q div 4 \<in> set js then pixelBytes (variantNormalized d (q div 4)) ! (q mod 4)
          else data ! q)"
  using assms
proof (induction js arbitrary: data)
  case Nil
  then show ?case by simp
next
  case (Cons i js)
  let ?v = "variantNormalized d i"
  let ?data = "data[i * 4 := toUint8 (?v * 255), i * 4 + 1 := toUint8 (jsPow ?v 0.9 * 255),
                    i * 4 + 2 := toUint8 (200 + ?v * 55), i * 4 + 3 := 255]"
  have d: "distinct js" "i \<notin> set js"
    using Cons.prems(1) by simp_all
  have step: "variantRowLoop d (i # js) data = variantRowLoop d js ?data"
    by (simp add: Let_def)
  have q': "q < length ?data"
    using Cons.prems(2) by simp
  have IH: "variantRowLoop d js ?data ! q =
         (if q div 4 \<in> set js then pixelBytes (variantNormalized d (q div 4)) ! (q mod 4)
          else ?data ! q)"
    using d(1) q' by (rule Cons.IH)
  have upd: "?data ! q = (if q div 4 = i then pixelBytes ?v ! (q mod 4) else data ! q)"
    using pixel_update_nth [OF Cons.prems(2), of i] by (simp add: pixelBytes_def)
  show ?case
    unfolding step IH upd using d(2) by auto
qed

lemma variantCommitRow_newest:
  assumes "length vtex = VARIANT_FREQUENCY_BINS * VARIANT_HISTORY_LENGTH * 4"
    and "q < VARIANT_ROW_BYTE_SIZE"
  shows "variantCommitRow vd vtex ! q = pixelBytes (variantNormalized vd (q div 4)) ! (q mod 4)"
proof -
  let ?shifted = "copyWithin vtex (int VARIANT_ROW_BYTE_SIZE) 0 (int (length vtex) - int VARIANT_ROW_BYTE_SIZE)"
  have row: "VARIANT_ROW_BYTE_SIZE \<le> length vtex"
    using assms(1) by (simp add: VARIANT_ROW_BYTE_SIZE_def VARIANT_HISTORY_LENGTH_def)
  then have "?shifted = take VARIANT_ROW_BYTE_SIZE vtex @ take (length vtex - VARIANT_ROW_BYTE_SIZE) vtex"
    by (rule copyWithin_shift)
  then have len: "length ?shifted = length vtex"
    using row by simp
  have q: "q < length ?shifted" "q div 4 < VARIANT_FREQUENCY_BINS"
    using assms(2) row len by (simp_all add: VARIANT_ROW_BYTE_SIZE_def)
  show ?thesis
    unfolding variantCommitRow_def Let_def using q
    by (subst variantRowLoop_nth) simp_all
qed

lemma variantCommitRow_pixel:
  assumes "length vtex = VARIANT_FREQUENCY_BINS * VARIANT_HISTORY_LENGTH * 4"
    and "j < VARIANT_FREQUENCY_BINS"
  shows "take 4 (drop (j * 4) (variantCommitRow vd vtex)) = pixelBytes (variantNormalized vd j)"
proof (rule nth_equalityI)
  have len: "length (variantCommitRow vd vtex) = length vtex"
  proof -
    have "VARIANT_ROW_BYTE_SIZE \<le> length vtex"
      using assms(1) by (simp add: VARIANT_ROW_BYTE_SIZE_def VARIANT_HISTORY_LENGTH_def)
    then have "copyWithin vtex (int VARIANT_ROW_BYTE_SIZE) 0 (int (length vtex) - int VARIANT_ROW_BYTE_SIZE)
        = take VARIANT_ROW_BYTE_SIZE vtex @ take (length vtex - VARIANT_ROW_BYTE_SIZE) vtex"
      by (rule copyWithin_shift)
    then show ?thesis
      using \<open>VARIANT_ROW_BYTE_SIZE \<le> length vtex\<close>
      by (simp add: variantCommitRow_def Let_def variantRowLoop_length)
  qed
  have fit: "j * 4 + 4 \<le> VARIANT_ROW_BYTE_SIZE" "VARIANT_ROW_BYTE_SIZE \<le> length vtex"
    using assms by (simp_all add: VARIANT_ROW_BYTE_SIZE_def VARIANT_HISTORY_LENGTH_def)
  show "length (take 4 (drop (j * 4) (variantCommitRow vd vtex))) = length (pixelBytes (variantNormalized vd j))"
    using fit len by (simp add: length_pixelBytes)
  fix c assume "c < length (take 4 (drop (j * 4) (variantCommitRow vd vtex)))"
  then have c: "c < 4"
    by simp
  then have q: "j * 4 + c < VARIANT_ROW_BYTE_SIZE"
    using fit by simp
  have dm: "(j * 4 + c) div 4 = j" "(j * 4 + c) mod 4 = c"
    using c by simp_all
  have "take 4 (drop (j * 4) (variantCommitRow vd vtex)) ! c = variantCommitRow vd vtex ! (j * 4 + c)"
    using c q fit len by simp
  also have "\<dots> = pixelBytes (variantNormalized vd j) ! c"
    using variantCommitRow_newest [OF assms(1) q, of vd] dm by simp
  finally show "take 4 (drop (j * 4) (variantCommitRow vd vtex)) ! c = pixelBytes (variantNormalized vd j) ! c" .
qed

text \<open>
  Claim C5, as stated, fails for the 64-bin variant: it stores bin \<open>i\<close> at position \<open>i\<close>.
  With full level in bin 0 only, the first byte of the newest row is 255, and the pixel at
  position 63, where a flipped row would hold bin 0, is 0.
\<close>

theorem variant_row_not_flipped:
  "variantCommitRow loudLowBin (replicate (64 * 96 * 4) 0) ! 0 = 255
   \<and> variantCommitRow loudLowBin (replicate (64 * 96 * 4) 0) ! ((VARIANT_FREQUENCY_BINS - 1 - 0) * 4) = 0"
proof -
  have len: "length (replicate (64 * 96 * 4) (0::nat)) = VARIANT_FREQUENCY_BINS * VARIANT_HISTORY_LENGTH * 4"
    by (simp add: VARIANT_FREQUENCY_BINS_def VARIANT_HISTORY_LENGTH_def)
  have n0: "variantNormalized loudLowBin 0 = 1"
    by (simp add: variantNormalized_def loudLowBin_def VARIANT_FREQUENCY_BINS_def jsPow_def)
  have n63: "variantNormalized loudLowBin 63 = 0"
    by (simp add: variantNormalized_def loudLowBin_def VARIANT_FREQUENCY_BINS_def jsPow_def)
  have "variantCommitRow loudLowBin (replicate (64 * 96 * 4) 0) ! 0
        = pixelBytes (variantNormalized loudLowBin (0 div 4)) ! (0 mod 4)"
    using len by (rule variantCommitRow_newest) (simp add: VARIANT_ROW_BYTE_SIZE_def VARIANT_FREQUENCY_BINS_def)
  then have a: "variantCommitRow loudLowBin (replicate (64 * 96 * 4) 0) ! 0 = 255"
    using n0 by (simp add: pixelBytes_def toUint8_def jsTrunc_def)
  have "variantCommitRow loudLowBin (replicate (64 * 96 * 4) 0) ! 252
        = pixelBytes (variantNormalized loudLowBin (252 div 4)) ! (252 mod 4)"
    using len by (rule variantCommitRow_newest) (simp add: VARIANT_ROW_BYTE_SIZE_def VARIANT_FREQUENCY_BINS_def)
  then have b: "variantCommitRow loudLowBin (replicate (64 * 96 * 4) 0) ! 252 = 0"
    using n63 by (simp add: pixelBytes_def toUint8_def jsTrunc_def)
  show ?thesis
    using a b by (simp add: VARIANT_FREQUENCY_BINS_def)
qed

text \<open>
  Claim C5, amended.  In the 256-bin component every tick writes the row it commits with
  the frequency axis flipped: the pixel of analyzer bin \<open>i\<close> is stored at position
  \<open>FREQUENCY_BINS - 1 - i\<close> of the newest row, so bin 0 always sits at the last position.
  The 64-bin variant stores the pixel of bin \<open>j\<close> at position \<open>j\<close>, without a flip.  In both
  the position of a bin is fixed when the row is written, and the shader reads the texture
  at the coordinates it is given.
\<close>

theorem frequency_axis_fixed_at_write:
  assumes "mounted st" and "updateSpectrogram now st = Some st'" and "i < FREQUENCY_BINS"
    and "length vtex = VARIANT_FREQUENCY_BINS * VARIANT_HISTORY_LENGTH * 4"
    and "j < VARIANT_FREQUENCY_BINS"
  shows "storedPixel (textureData st') 0 (FREQUENCY_BINS - 1 - i) = pixelBytes (smoothedRowRef st' ! i)
       \<and> storedPixel (textureData st') 0 (FREQUENCY_BINS - 1) = pixelBytes (smoothedRowRef st' ! 0)
       \<and> take 4 (drop (j * 4) (variantCommitRow vd vtex)) = pixelBytes (variantNormalized vd j)
       \<and> sampleCoordinate (u, v) = (u, v)"
proof -
  obtain d s where st': "st' = commitRow d (textureData st) s" and s: "smoothedRowRef s = smoothedRowRef st"
    using updateSpectrogram_commit [OF assms(2,1)] by blast
  have len: "length (textureData st) = FREQUENCY_BINS * HISTORY_LENGTH * 4"
    "length (smoothedRowRef s) = FREQUENCY_BINS"
    using assms(1) s by (auto simp add: mounted_def textureData_def split: option.splits)
  have a: "storedPixel (textureData st') 0 (FREQUENCY_BINS - 1 - i) = pixelBytes (smoothedRowRef st' ! i)"
    unfolding st' using len assms(3) by (rule storedPixel_newest)
  have "0 < FREQUENCY_BINS"
    by (simp add: FREQUENCY_BINS_def)
  then have "storedPixel (textureData st') 0 (FREQUENCY_BINS - 1 - 0) = pixelBytes (smoothedRowRef st' ! 0)"
    unfolding st' using len by (intro storedPixel_newest)
  then have b: "storedPixel (textureData st') 0 (FREQUENCY_BINS - 1) = pixelBytes (smoothedRowRef st' ! 0)"
    by simp
  have c: "take 4 (drop (j * 4) (variantCommitRow vd vtex)) = pixelBytes (variantNormalized vd j)"
    using assms(4,5) by (rule variantCommitRow_pixel)
  show ?thesis
    using a b c by (simp add: sampleCoordinate_def)
qed

theorem frequency_axis_fixed_at_write_witness:
  "mounted (freshComponent None) \<and> 0 < FREQUENCY_BINS \<and> 0 < VARIANT_FREQUENCY_BINS
   \<and> (\<exists>st'. updateSpectrogram 0 (freshComponent None) = Some st'
          \<and> storedPixel (textureData st') 0 (FREQUENCY_BINS - 1) = pixelBytes (smoothedRowRef st' ! 0))
   \<and> take 4 (drop (0 * 4) (variantCommitRow loudLowBin (replicate (64 * 96 * 4) 0)))
       = pixelBytes (variantNormalized loudLowBin 0)"
proof -
  have h1: "mounted (freshComponent None)"
    by (rule mounted_fresh)
  obtain st' where h2: "updateSpectrogram 0 (freshComponent None) = Some st'"
    using updateSpectrogram_defined [of "freshComponent None" 0] by (auto simp add: freshComponent_def)
  have h3: "0 < FREQUENCY_BINS" and h5: "0 < VARIANT_FREQUENCY_BINS"
    by (simp_all add: FREQUENCY_BINS_def VARIANT_FREQUENCY_BINS_def)
  have h4: "length (replicate (64 * 96 * 4) (0::nat)) = VARIANT_FREQUENCY_BINS * VARIANT_HISTORY_LENGTH * 4"
    by (simp add: VARIANT_FREQUENCY_BINS_def VARIANT_HISTORY_LENGTH_def)
  show ?thesis
    using frequency_axis_fixed_at_write [OF h1 h2 h3 h4 h5, of loudLowBin] h1 h2 h3 h5 by auto
qed

section \<open>Smoothing pipeline\<close>

lemma kernel_indices: "[0..<length FREQUENCY_SMOOTH_KERNEL] = [0, 1, 2, 3, 4, 5, 6]"
  by (simp add: FREQUENCY_SMOOTH_KERNEL_def upt_rec)

lemma kernel_values:
  "FREQUENCY_SMOOTH_KERNEL ! 0 = 0.03" "FREQUENCY_SMOOTH_KERNEL ! 1 = 0.08"
  "FREQUENCY_SMOOTH_KERNEL ! 2 = 0.15" "FREQUENCY_SMOOTH_KERNEL ! 3 = 0.18"
  "FREQUENCY_SMOOTH_KERNEL ! 4 = 0.15" "FREQUENCY_SMOOTH_KERNEL ! 5 = 0.08"
  "FREQUENCY_SMOOTH_KERNEL ! 6 = 0.03"
  by (simp_all add: FREQUENCY_SMOOTH_KERNEL_def)

lemma blendedFreq_taps:
  "blendedFreq nb i =
     nb ! i * (1 - FREQUENCY_SMOOTH_MIX)
     + (nb ! tapIndex i 0 * 0.03 + nb ! tapIndex i 1 * 0.08 + nb ! tapIndex i 2 * 0.15
        + nb ! tapIndex i 3 * 0.18 + nb ! tapIndex i 4 * 0.15 + nb ! tapIndex i 5 * 0.08
        + nb ! tapIndex i 6 * 0.03) * FREQUENCY_SMOOTH_MIX"
  unfolding blendedFreq_def Let_def kernel_indices by (simp add: FREQUENCY_SMOOTH_KERNEL_def)

lemma kernelRadius_3: "kernelRadius = 3"
  by (simp add: kernelRadius_def FREQUENCY_SMOOTH_KERNEL_def)

lemma tapIndex_less: "tapIndex i k < FREQUENCY_BINS"
  by (auto simp add: tapIndex_def Let_def FREQUENCY_BINS_def)

lemma tapIndex_interior:
  assumes "3 \<le> i" "i + 3 < FREQUENCY_BINS" "k < 7"
  shows "tapIndex i k = i + k - 3"
  using assms by (simp add: tapIndex_def Let_def kernelRadius_3 FREQUENCY_BINS_def)

lemma tapIndex_hit:
  assumes "j < FREQUENCY_BINS" and "k < 7"
  shows "tapIndex j k = j \<longleftrightarrow> k = 3 \<or> (k < 3 \<and> j = 0) \<or> (3 < k \<and> j = FREQUENCY_BINS - 1)"
  using assms by (auto simp add: tapIndex_def Let_def kernelRadius_3 FREQUENCY_BINS_def)

lemma impulse_nth:
  assumes "i < FREQUENCY_BINS"
  shows "impulse j ! i = (if i = j then 1 else 0)"
  using assms by (simp add: impulse_def nth_list_update)

lemma impulse_tap:
  assumes "j < FREQUENCY_BINS" and "k < 7"
  shows "impulse j ! tapIndex j k =
         (if k = 3 \<or> (k < 3 \<and> j = 0) \<or> (3 < k \<and> j = FREQUENCY_BINS - 1) then 1 else 0)"
  using tapIndex_hit [OF assms] tapIndex_less [of j k] by (simp add: impulse_nth)

text \<open>
  Claim C7, as stated, fails.  The kernel is not normalised: its weights sum to 0.7.  With
  an impulse at bin 128 the filter yields 0.262, not the value 0.73 that the raw value, the
  sum of the kernel and the mix ratio would give.
\<close>

theorem spatial_kernel_not_normalized:
  "sum_list FREQUENCY_SMOOTH_KERNEL = 0.7
   \<and> sum_list FREQUENCY_SMOOTH_KERNEL \<noteq> 1
   \<and> blendedFreq (impulse 128) 128 = 0.262
   \<and> impulse 128 ! 128 * (1 - FREQUENCY_SMOOTH_MIX)
       + sum_list FREQUENCY_SMOOTH_KERNEL * FREQUENCY_SMOOTH_MIX = 0.73
   \<and> blendedFreq (impulse 128) 128
       \<noteq> impulse 128 ! 128 * (1 - FREQUENCY_SMOOTH_MIX)
         + sum_list FREQUENCY_SMOOTH_KERNEL * FREQUENCY_SMOOTH_MIX"
proof -
  have j: "128 < FREQUENCY_BINS"
    by (simp add: FREQUENCY_BINS_def)
  have s: "sum_list FREQUENCY_SMOOTH_KERNEL = 0.7"
    by (simp add: FREQUENCY_SMOOTH_KERNEL_def)
  have a: "blendedFreq (impulse 128) 128 = 0.262"
    unfolding blendedFreq_taps using j
    by (simp add: impulse_tap impulse_nth FREQUENCY_SMOOTH_MIX_def FREQUENCY_BINS_def)
  have b: "impulse 128 ! 128 * (1 - FREQUENCY_SMOOTH_MIX)
       + sum_list FREQUENCY_SMOOTH_KERNEL * FREQUENCY_SMOOTH_MIX = 0.73"
    using j by (simp add: s impulse_nth FREQUENCY_SMOOTH_MIX_def)
  have c: "sum_list FREQUENCY_SMOOTH_KERNEL \<noteq> 1"
    using s by simp
  have d: "blendedFreq (impulse 128) 128
       \<noteq> impulse 128 ! 128 * (1 - FREQUENCY_SMOOTH_MIX)
         + sum_list FREQUENCY_SMOOTH_KERNEL * FREQUENCY_SMOOTH_MIX"
    unfolding a b by simp
  show ?thesis
    using s a b c d by blast
qed

text \<open>
  Claim C7, amended.  The spatial filter is a convolution across the frequency axis with
  the fixed symmetric kernel of seven weights \<open>[0.03, 0.08, 0.15, 0.18, 0.15, 0.08, 0.03]\<close>,
  which sum to 0.7; a tap outside the row reads the nearest bin of the row; the result is
  mixed 90% filtered to 10% raw.  For an impulse at bin \<open>j\<close> the value at \<open>j\<close> is
  \<open>raw * (1 - mix) + w * mix\<close>, where \<open>w\<close> is the total weight of the taps that land on
  \<open>j\<close>: the centre weight 0.18 inside the row, and 0.44 at bin 0 and at the last bin, where
  the three taps beyond the edge land on the impulse as well.
\<close>

theorem spatial_filter_impulse:
  assumes "j < FREQUENCY_BINS"
  shows "blendedFreq nb i =
           nb ! i * (1 - FREQUENCY_SMOOTH_MIX)
           + (\<Sum>k\<leftarrow>[0..<length FREQUENCY_SMOOTH_KERNEL]. nb ! tapIndex i k * FREQUENCY_SMOOTH_KERNEL ! k)
             * FREQUENCY_SMOOTH_MIX
       \<and> tapIndex i k = nat (max 0 (min (int FREQUENCY_BINS - 1) (int i + (int k - 3))))
       \<and> FREQUENCY_SMOOTH_KERNEL = [0.03, 0.08, 0.15, 0.18, 0.15, 0.08, 0.03]
       \<and> rev FREQUENCY_SMOOTH_KERNEL = FREQUENCY_SMOOTH_KERNEL
       \<and> sum_list FREQUENCY_SMOOTH_KERNEL = 0.7
       \<and> FREQUENCY_SMOOTH_MIX = 0.9
       \<and> blendedFreq (impulse j) j =
           1 * (1 - FREQUENCY_SMOOTH_MIX)
           + (if j = 0 then 0.03 + 0.08 + 0.15 + 0.18
              else if j = FREQUENCY_BINS - 1 then 0.18 + 0.15 + 0.08 + 0.03
              else 0.18) * FREQUENCY_SMOOTH_MIX"
proof -
  have a: "blendedFreq nb i =
           nb ! i * (1 - FREQUENCY_SMOOTH_MIX)
           + (\<Sum>k\<leftarrow>[0..<length FREQUENCY_SMOOTH_KERNEL]. nb ! tapIndex i k * FREQUENCY_SMOOTH_KERNEL ! k)
             * FREQUENCY_SMOOTH_MIX"
    unfolding blendedFreq_taps kernel_indices by (simp add: FREQUENCY_SMOOTH_KERNEL_def)
  have b: "tapIndex i k = nat (max 0 (min (int FREQUENCY_BINS - 1) (int i + (int k - 3))))"
    by (auto simp add: tapIndex_def Let_def kernelRadius_3 FREQUENCY_BINS_def max_def min_def)
  have c: "rev FREQUENCY_SMOOTH_KERNEL = FREQUENCY_SMOOTH_KERNEL"
    "sum_list FREQUENCY_SMOOTH_KERNEL = 0.7"
    by (simp_all add: FREQUENCY_SMOOTH_KERNEL_def)
  have d: "blendedFreq (impulse j) j =
           1 * (1 - FREQUENCY_SMOOTH_MIX)
           + (if j = 0 then 0.03 + 0.08 + 0.15 + 0.18
              else if j = FREQUENCY_BINS - 1 then 0.18 + 0.15 + 0.08 + 0.03
              else 0.18) * FREQUENCY_SMOOTH_MIX"
    unfolding blendedFreq_taps using assms
    by (simp add: impulse_tap impulse_nth FREQUENCY_BINS_def)
  have e: "FREQUENCY_SMOOTH_KERNEL = [0.03, 0.08, 0.15, 0.18, 0.15, 0.08, 0.03]"
    "FREQUENCY_SMOOTH_MIX = 0.9"
    by (simp_all add: FREQUENCY_SMOOTH_KERNEL_def FREQUENCY_SMOOTH_MIX_def)
  show ?thesis
    using a b c d e by blast
qed

theorem spatial_filter_impulse_witness:
  "0 < FREQUENCY_BINS \<and> blendedFreq (impulse 0) 0 = 0.496"
proof -
  have h: "0 < FREQUENCY_BINS"
    by (simp add: FREQUENCY_BINS_def)
  have "blendedFreq (impulse 0) 0 =
           1 * (1 - FREQUENCY_SMOOTH_MIX)
           + (if (0::nat) = 0 then 0.03 + 0.08 + 0.15 + 0.18
              else if 0 = FREQUENCY_BINS - 1 then 0.18 + 0.15 + 0.08 + 0.03
              else 0.18) * FREQUENCY_SMOOTH_MIX"
    using spatial_filter_impulse [OF h, of "[]" 0 0] by blast
  then show ?thesis
    using h by (simp add: FREQUENCY_SMOOTH_MIX_def)
qed


lemma updateSpectrogram_commitFrame:
  assumes "updateSpectrogram now st = Some st'" and "mounted st"
  shows "\<exists>d p. st' = commitFrame d (st\<lparr>prevFrequencyDataRef := p\<rparr>)"
proof -
  obtain d0 tex where d0: "dataArrayRef st = Some d0" and tex: "spectrogramTextureRef st = Some tex"
    using assms(2) by (auto simp add: mounted_def split: option.splits)
  show ?thesis
  proof (cases "audioBufferRef st")
    case None
    then have "st' = commitRow d0 tex st"
      using assms(1) d0 tex by (simp add: updateSpectrogram_def)
    moreover have "st\<lparr>prevFrequencyDataRef := prevFrequencyDataRef st, dataArrayRef := Some d0\<rparr> = st"
      using d0 by simp
    ultimately have "st' = commitFrame d0 (st\<lparr>prevFrequencyDataRef := prevFrequencyDataRef st\<rparr>)"
      using tex by (simp add: commitFrame_def)
    then show ?thesis
      by blast
  next
    case (Some buffer)
    let ?a = "computeFrequencyData now buffer d0 (prevFrequencyDataRef st)"
    have "\<exists>t p. st' = commitRow t tex (st\<lparr>dataArrayRef := Some t, prevFrequencyDataRef := Some p\<rparr>)"
      using assms(1) d0 tex Some
      by (cases ?a) (auto simp add: updateSpectrogram_def)
    then obtain t p where "st' = commitRow t tex (st\<lparr>dataArrayRef := Some t, prevFrequencyDataRef := Some p\<rparr>)"
      by blast
    moreover have "st\<lparr>dataArrayRef := Some t, prevFrequencyDataRef := Some p\<rparr>
        = st\<lparr>prevFrequencyDataRef := Some p, dataArrayRef := Some t\<rparr>"
      by (cases st) simp
    ultimately have "st' = commitFrame t (st\<lparr>prevFrequencyDataRef := Some p\<rparr>)"
      using tex by (simp add: commitFrame_def)
    then show ?thesis
      by blast
  qed
qed






section \<open>Cross-fading of the contour layers\<close>


lemma blendSurfaces_shape:
  "length (blendSurfaces fromS toS t) = length toS"
  "si < length toS \<Longrightarrow> length (blendSurfaces fromS toS t ! si) = length (toS ! si)"
  "si < length toS \<Longrightarrow> ri < length (toS ! si) \<Longrightarrow>
     length (blendSurfaces fromS toS t ! si ! ri) = length (toS ! si ! ri)"
  by (simp_all add: blendSurfaces_def Let_def nth_enumerate_eq)



section \<open>Normalisation of the contour surfaces\<close>

lemma binMagnitude_nonneg: "0 \<le> binMagnitude segment rate bin"
  by (simp add: binMagnitude_def Let_def split: prod.splits)

lemma computeSpectrumSegment_nonneg: "v \<in> set (computeSpectrumSegment segment rate) \<Longrightarrow> 0 \<le> v"
  by (auto simp add: computeSpectrumSegment_def binMagnitude_nonneg)

lemma maxLoop_ge: "g \<le> maxLoop vs g"
proof (induction vs arbitrary: g)
  case Nil
  then show ?case by simp
next
  case (Cons v vs)
  have "g \<le> (if v > g then v else g)"
    by simp
  also have "\<dots> \<le> maxLoop vs (if v > g then v else g)"
    by (rule Cons.IH)
  finally show ?case
    by simp
qed

lemma maxLoop_upper: "v \<in> set vs \<Longrightarrow> v \<le> maxLoop vs g"
proof (induction vs arbitrary: g)
  case Nil
  then show ?case by simp
next
  case (Cons w vs)
  show ?case
  proof (cases "v = w")
    case True
    have "w \<le> (if w > g then w else g)"
      by simp
    also have "\<dots> \<le> maxLoop vs (if w > g then w else g)"
      by (rule maxLoop_ge)
    finally show ?thesis
      using True by simp
  next
    case False
    then have "v \<in> set vs"
      using Cons.prems by simp
    then show ?thesis
      using Cons.IH by simp
  qed
qed

lemma maxLoop_mem: "maxLoop vs g = g \<or> maxLoop vs g \<in> set vs"
proof (induction vs arbitrary: g)
  case Nil
  then show ?case by simp
next
  case (Cons v vs)
  show ?case
    using Cons.IH [of "if v > g then v else g"] by (auto split: if_splits)
qed

lemma maximumOf_add_row:
  assumes "maximumOf A g" and "\<forall>v\<in>set row. 0 \<le> v"
  shows "maximumOf (A \<union> set row) (maxLoop row g)"
proof -
  have g: "0 \<le> g" and A: "\<forall>v\<in>A. 0 \<le> v \<and> v \<le> g" and m: "g = 0 \<or> g \<in> A"
    using assms(1) by (simp_all add: maximumOf_def)
  have ge: "g \<le> maxLoop row g"
    by (rule maxLoop_ge)
  have "\<forall>v\<in>A \<union> set row. 0 \<le> v \<and> v \<le> maxLoop row g"
    using A ge assms(2) maxLoop_upper [of _ row g] by fastforce
  moreover have "maxLoop row g = 0 \<or> maxLoop row g \<in> A \<union> set row"
    using maxLoop_mem [of row g] m by auto
  ultimately show ?thesis
    using g ge by (simp add: maximumOf_def)
qed

lemma maximumOf_add_zeros:
  assumes "maximumOf A g"
  shows "maximumOf (A \<union> set (replicate n 0)) g"
  using assms by (auto simp add: maximumOf_def)

lemma rowValues_snoc: "rowValues (surface @ [row]) = rowValues surface \<union> set row"
  by (auto simp add: rowValues_def)

lemma surfaceValues_snoc: "surfaceValues (surfaces @ [surface]) = surfaceValues surfaces \<union> rowValues surface"
  by (auto simp add: surfaceValues_def)

lemma sliceLoop_maximum:
  assumes "maximumOf (A \<union> rowValues (fst acc)) (snd acc)"
  shows "maximumOf (A \<union> rowValues (fst (sliceLoop layer rate sliceLength slices acc)))
           (snd (sliceLoop layer rate sliceLength slices acc))"
  using assms
proof (induction slices arbitrary: acc)
  case Nil
  then show ?case by simp
next
  case (Cons slice rest)
  show ?case
  proof (cases "slice * sliceLength \<ge> length layer")
    case True
    have "maximumOf ((A \<union> rowValues (fst acc)) \<union> set (replicate FREQ_BINS 0)) (snd acc)"
      using Cons.prems by (rule maximumOf_add_zeros)
    then have "maximumOf (A \<union> rowValues (fst acc @ [replicate FREQ_BINS 0])) (snd acc)"
      by (simp add: rowValues_snoc Un_assoc)
    then show ?thesis
      using True Cons.IH [of "(fst acc @ [replicate FREQ_BINS 0], snd acc)"] by simp
  next
    case False
    define available where "available = max 64 (min WINDOW_SIZE (length layer - slice * sliceLength))"
    define copied where "copied = subarray layer (slice * sliceLength) (slice * sliceLength + available)"
    define magnitudes where
      "magnitudes = computeSpectrumSegment (copied @ replicate (available - length copied) 0) rate"
    have "\<forall>v\<in>set magnitudes. 0 \<le> v"
      using computeSpectrumSegment_nonneg by (simp add: magnitudes_def)
    then have "maximumOf ((A \<union> rowValues (fst acc)) \<union> set magnitudes) (maxLoop magnitudes (snd acc))"
      using Cons.prems by (intro maximumOf_add_row)
    then have "maximumOf (A \<union> rowValues (fst acc @ [magnitudes])) (maxLoop magnitudes (snd acc))"
      by (simp add: rowValues_snoc Un_assoc)
    then show ?thesis
      using False Cons.IH [of "(fst acc @ [magnitudes], maxLoop magnitudes (snd acc))"]
      by (simp add: Let_def available_def copied_def magnitudes_def)
  qed
qed

lemma surfaceLoop_maximum:
  assumes "maximumOf (surfaceValues (fst acc)) (snd acc)"
  shows "maximumOf (surfaceValues (fst (surfaceLoop windowed rate segmentLength indices acc)))
           (snd (surfaceLoop windowed rate segmentLength indices acc))"
  using assms
proof (induction indices arbitrary: acc)
  case Nil
  then show ?case by simp
next
  case (Cons surfaceIndex rest)
  define layer where "layer = subarray windowed (surfaceIndex * segmentLength)
      (min (surfaceIndex * segmentLength + segmentLength) (length windowed))"
  show ?case
  proof (cases "layer = []")
    case True
    then show ?thesis
      using Cons.IH [OF Cons.prems] by (simp add: Let_def layer_def)
  next
    case False
    define out where "out = sliceLoop layer rate (max 1 (length layer div TIME_SLICES)) [0..<TIME_SLICES] ([], snd acc)"
    have "maximumOf (surfaceValues (fst acc) \<union> rowValues (fst ([]::SurfaceMatrix, snd acc))) (snd ([]::SurfaceMatrix, snd acc))"
      using Cons.prems by (simp add: rowValues_def)
    then have "maximumOf (surfaceValues (fst acc) \<union> rowValues (fst out)) (snd out)"
      unfolding out_def by (rule sliceLoop_maximum)
    then have "maximumOf (surfaceValues (fst acc @ [fst out])) (snd out)"
      by (simp add: surfaceValues_snoc)
    then show ?thesis
      using False Cons.IH [of "(fst acc @ [fst out], snd out)"]
      by (simp add: Let_def layer_def out_def)
  qed
qed

lemma rawSurfaces_maximum:
  "maximumOf (surfaceValues (fst (rawSurfaces payload startSample windowSamples)))
     (snd (rawSurfaces payload startSample windowSamples))"
  unfolding rawSurfaces_def Let_def
  by (rule surfaceLoop_maximum) (simp add: maximumOf_def surfaceValues_def)

lemma surfaceValues_map:
  "surfaceValues (map (\<lambda>surface. map (\<lambda>row. map f row) surface) surfaces) = f ` surfaceValues surfaces"
  by (auto simp add: surfaceValues_def rowValues_def)

lemma surfaceLoop_empty: "surfaceLoop [] rate segmentLength indices acc = acc"
  by (induction indices arbitrary: acc) (simp_all add: subarray_def)

lemma rawSurfaces_empty:
  assumes "min (length (samples payload)) (startSample + windowSamples) \<le> startSample"
  shows "rawSurfaces payload startSample windowSamples = ([], 0)"
  using assms by (simp add: rawSurfaces_def Let_def subarray_def surfaceLoop_empty)

lemma normalised_range:
  fixes v g :: real
  assumes "0 \<le> v" and "v \<le> g" and "0 < g"
  shows "0 \<le> jsPow (v / g) 0.85" and "jsPow (v / g) 0.85 \<le> 1"
proof -
  show "0 \<le> jsPow (v / g) 0.85"
    by (simp add: jsPow_def)
  have "0 \<le> v / g" "v / g \<le> 1"
    using assms by simp_all
  then have "\<bar>v / g\<bar> \<le> 1"
    by simp
  then show "jsPow (v / g) 0.85 \<le> 1"
    unfolding jsPow_def by (intro powr_le1) simp_all
qed

text \<open>
  Claim C10.  Whenever a window yields at least one non-zero magnitude, the matrices
  returned by \<^verbatim>\<open>extractSurfacesForWindow\<close> hold values in \<open>[0, 1]\<close> only and the value 1
  occurs: the raw magnitudes are not negative, the divisor is their maximum over the whole
  window, and each quotient is raised to the exponent 0.85.
\<close>

theorem surfaces_relative_to_loudest:
  assumes "\<exists>v\<in>surfaceValues (fst (rawSurfaces payload startSample windowSamples)). v \<noteq> 0"
  shows "(\<forall>v\<in>surfaceValues (extractSurfacesForWindow payload startSample windowSamples). 0 \<le> v \<and> v \<le> 1)
       \<and> 1 \<in> surfaceValues (extractSurfacesForWindow payload startSample windowSamples)
       \<and> extractSurfacesForWindow payload startSample windowSamples
           = map (\<lambda>surface. map (\<lambda>row. map (\<lambda>value.
                   jsPow (value / snd (rawSurfaces payload startSample windowSamples)) 0.85) row) surface)
               (fst (rawSurfaces payload startSample windowSamples))
       \<and> (\<forall>v\<in>surfaceValues (fst (rawSurfaces payload startSample windowSamples)).
             0 \<le> v \<and> v \<le> snd (rawSurfaces payload startSample windowSamples))
       \<and> snd (rawSurfaces payload startSample windowSamples)
           \<in> surfaceValues (fst (rawSurfaces payload startSample windowSamples))"
proof -
  let ?raw = "rawSurfaces payload startSample windowSamples"
  let ?out = "extractSurfacesForWindow payload startSample windowSamples"
  let ?f = "\<lambda>value. jsPow (value / snd ?raw) 0.85"
  have m: "maximumOf (surfaceValues (fst ?raw)) (snd ?raw)"
    by (rule rawSurfaces_maximum)
  then have rng: "\<forall>v\<in>surfaceValues (fst ?raw). 0 \<le> v \<and> v \<le> snd ?raw"
    and mem: "snd ?raw = 0 \<or> snd ?raw \<in> surfaceValues (fst ?raw)"
    by (simp_all add: maximumOf_def)
  obtain w where w: "w \<in> surfaceValues (fst ?raw)" "w \<noteq> 0"
    using assms by blast
  then have pos: "0 < snd ?raw"
    using rng by fastforce
  then have mem': "snd ?raw \<in> surfaceValues (fst ?raw)"
    using mem by simp
  have guard: "\<not> min (length (samples payload)) (startSample + windowSamples) \<le> startSample"
  proof
    assume "min (length (samples payload)) (startSample + windowSamples) \<le> startSample"
    then have "?raw = ([], 0)"
      by (rule rawSurfaces_empty)
    then show False
      using w(1) by (simp add: surfaceValues_def)
  qed
  have out: "?out = map (\<lambda>surface. map (\<lambda>row. map ?f row) surface) (fst ?raw)"
    using guard pos by (simp add: extractSurfacesForWindow_def Let_def)
  then have vals: "surfaceValues ?out = ?f ` surfaceValues (fst ?raw)"
    by (simp add: surfaceValues_map)
  have a: "\<forall>v\<in>surfaceValues ?out. 0 \<le> v \<and> v \<le> 1"
    unfolding vals using rng pos normalised_range by blast
  have "?f (snd ?raw) = 1"
    using pos by (simp add: jsPow_def)
  then have b: "1 \<in> surfaceValues ?out"
    unfolding vals using mem' by force
  show ?thesis
    using a b out rng mem' by blast
qed

lemma segmentLoop_zeros:
  assumes "\<forall>i\<in>set js. segment ! i = 0"
  shows "snd (snd (segmentLoop segment cosDelta sinDelta js acc)) = snd (snd acc)"
  using assms
proof (induction js arbitrary: acc)
  case Nil
  then show ?case by simp
next
  case (Cons i js)
  obtain c s re im where acc: "acc = (c, s, re, im)"
    by (cases acc) auto
  show ?case
    using Cons.prems Cons.IH unfolding acc by (simp add: Let_def)
qed

lemma hann_64_1_pos: "0 < applyHannWindow 64 1"
proof -
  have "0 \<le> (0::real)" "(0::real) < 2 * pi / 63" "2 * pi / 63 \<le> pi"
    using pi_gt_zero by simp_all
  then have "cos (2 * pi / 63) < cos 0"
    by (rule cos_monotone_0_pi)
  then show ?thesis
    by (simp add: applyHannWindow_def)
qed

lemma segmentLoop_two_steps:
  assumes "segment ! 0 = 0" and "segment ! Suc 0 = 1"
  shows "segmentLoop segment cd sd (0 # Suc 0 # rest) (1, 0, 0, 0)
         = segmentLoop segment cd sd rest
             (cd * cd - sd * sd, sd * cd + cd * sd,
              applyHannWindow (length segment) (Suc 0) * cd,
              - (applyHannWindow (length segment) (Suc 0) * sd))"
  using assms by (simp add: Let_def)

lemma click_magnitude_pos: "0 < binMagnitude ([0, 1] @ replicate 62 0) rate bin"
proof -
  let ?seg = "[0, 1] @ replicate 62 (0::real)"
  define cd where "cd = cos (2 * pi * (MIN_FREQ + max 1 (min MAX_FREQ (rate / 2) - MIN_FREQ) * real bin
     / real (if FREQ_BINS - 1 = 0 then 1 else FREQ_BINS - 1)) / rate)"
  define sd where "sd = sin (2 * pi * (MIN_FREQ + max 1 (min MAX_FREQ (rate / 2) - MIN_FREQ) * real bin
     / real (if FREQ_BINS - 1 = 0 then 1 else FREQ_BINS - 1)) / rate)"
  define h where "h = applyHannWindow 64 (Suc 0)"
  define tail where "tail = [Suc (Suc 0)..<64]"
  have len: "length ?seg = 64"
    by simp
  have "[0..<64] = 0 # [Suc 0..<64]"
    by (rule upt_conv_Cons) simp
  moreover have "[Suc 0..<64] = Suc 0 # [Suc (Suc 0)..<64]"
    by (rule upt_conv_Cons) simp
  ultimately have idx: "[0..<length ?seg] = 0 # Suc 0 # tail"
    unfolding len tail_def by simp
  have zeros: "\<forall>i\<in>set tail. ?seg ! i = 0"
  proof
    fix i assume "i \<in> set tail"
    then have i: "2 \<le> i" "i < 64"
      unfolding tail_def set_upt by simp_all
    then have "i - Suc (Suc 0) < 62"
      by simp
    then have "replicate 62 (0::real) ! (i - Suc (Suc 0)) = 0"
      by (rule nth_replicate)
    then show "?seg ! i = 0"
      using i(1) by (simp add: nth_append)
  qed
  have two: "segmentLoop ?seg cd sd [0..<length ?seg] (1, 0, 0, 0)
        = segmentLoop ?seg cd sd tail (cd * cd - sd * sd, sd * cd + cd * sd, h * cd, - (h * sd))"
    unfolding idx h_def len [symmetric] by (rule segmentLoop_two_steps) simp_all
  have "snd (snd (segmentLoop ?seg cd sd [0..<length ?seg] (1, 0, 0, 0))) = (h * cd, - (h * sd))"
    unfolding two using segmentLoop_zeros [OF zeros, of cd sd] by simp
  then obtain c s where r: "segmentLoop ?seg cd sd [0..<length ?seg] (1, 0, 0, 0) = (c, s, h * cd, - (h * sd))"
    by (cases "segmentLoop ?seg cd sd [0..<length ?seg] (1, 0, 0, 0)") auto
  have "binMagnitude ?seg rate bin = sqrt (h * cd * (h * cd) + - (h * sd) * - (h * sd))"
    unfolding binMagnitude_def Let_def cd_def [symmetric] sd_def [symmetric] r by simp
  also have "h * cd * (h * cd) + - (h * sd) * - (h * sd) = h\<^sup>2 * ((sd)\<^sup>2 + (cd)\<^sup>2)"
    by (simp add: power2_eq_square algebra_simps)
  also have "(sd)\<^sup>2 + (cd)\<^sup>2 = 1"
    unfolding sd_def cd_def by (rule sin_cos_squared_add)
  finally have "binMagnitude ?seg rate bin = \<bar>h\<bar>"
    by simp
  then show ?thesis
    using hann_64_1_pos by (simp add: h_def)
qed

lemma sliceLoop_grows:
  "rowValues (fst acc) \<subseteq> rowValues (fst (sliceLoop layer rate sliceLength slices acc))"
proof (induction slices arbitrary: acc)
  case Nil
  then show ?case by simp
next
  case (Cons slice rest)
  show ?case
  proof (cases "slice * sliceLength \<ge> length layer")
    case True
    have "rowValues (fst acc) \<subseteq> rowValues (fst (fst acc @ [replicate FREQ_BINS 0], snd acc))"
      by (simp add: rowValues_snoc)
    also have "\<dots> \<subseteq> rowValues (fst (sliceLoop layer rate sliceLength rest
                                       (fst acc @ [replicate FREQ_BINS 0], snd acc)))"
      by (rule Cons.IH)
    finally show ?thesis
      using True by simp
  next
    case False
    define available where "available = max 64 (min WINDOW_SIZE (length layer - slice * sliceLength))"
    define copied where "copied = subarray layer (slice * sliceLength) (slice * sliceLength + available)"
    define magnitudes where
      "magnitudes = computeSpectrumSegment (copied @ replicate (available - length copied) 0) rate"
    have "rowValues (fst acc) \<subseteq> rowValues (fst (fst acc @ [magnitudes], maxLoop magnitudes (snd acc)))"
      by (simp add: rowValues_snoc)
    also have "\<dots> \<subseteq> rowValues (fst (sliceLoop layer rate sliceLength rest
                                       (fst acc @ [magnitudes], maxLoop magnitudes (snd acc))))"
      by (rule Cons.IH)
    finally show ?thesis
      using False by (simp add: Let_def available_def copied_def magnitudes_def)
  qed
qed

lemma surfaceLoop_grows:
  "surfaceValues (fst acc) \<subseteq> surfaceValues (fst (surfaceLoop windowed rate segmentLength indices acc))"
proof (induction indices arbitrary: acc)
  case Nil
  then show ?case by simp
next
  case (Cons surfaceIndex rest)
  define layer where "layer = subarray windowed (surfaceIndex * segmentLength)
      (min (surfaceIndex * segmentLength + segmentLength) (length windowed))"
  show ?case
  proof (cases "layer = []")
    case True
    then show ?thesis
      using Cons.IH [of acc] by (simp add: Let_def layer_def)
  next
    case False
    define out where "out = sliceLoop layer rate (max 1 (length layer div TIME_SLICES)) [0..<TIME_SLICES] ([], snd acc)"
    have "surfaceValues (fst acc) \<subseteq> surfaceValues (fst (fst acc @ [fst out], snd out))"
      by (simp add: surfaceValues_snoc)
    also have "\<dots> \<subseteq> surfaceValues (fst (surfaceLoop windowed rate segmentLength rest
                                          (fst acc @ [fst out], snd out)))"
      by (rule Cons.IH)
    finally show ?thesis
      using False by (simp add: Let_def layer_def out_def)
  qed
qed

lemma click_raw_member:
  "binMagnitude ([0, 1] @ replicate 62 0) 48000 0
   \<in> surfaceValues (fst (rawSurfaces clickPayload 0 6))"
proof -
  let ?w = "[0, 1, 0, 0, 0, 0 :: real]"
  let ?mag = "computeSpectrumSegment ([0, 1] @ replicate 62 0) 48000"
  define restS where "restS = [Suc 0..<SURFACE_COUNT]"
  define restT where "restT = [Suc 0..<TIME_SLICES]"
  have idxS: "[0..<SURFACE_COUNT] = 0 # restS"
    unfolding restS_def by (rule upt_conv_Cons) (simp add: SURFACE_COUNT_def)
  have idxT: "[0..<TIME_SLICES] = 0 # restT"
    unfolding restT_def by (rule upt_conv_Cons) (simp add: TIME_SLICES_def)
  have e: "min (length (samples clickPayload)) (0 + 6) = 6"
    by (simp add: clickPayload_def)
  have w: "subarray (samples clickPayload) 0 6 = ?w"
    by (simp add: clickPayload_def subarray_def)
  have sl: "max 1 (length ?w div SURFACE_COUNT) = 2"
    by (simp add: SURFACE_COUNT_def)
  have rate: "payloadRate clickPayload = 48000"
    by (simp add: clickPayload_def)
  have raw: "rawSurfaces clickPayload 0 6 = surfaceLoop ?w 48000 2 (0 # restS) ([], 0)"
    unfolding rawSurfaces_def Let_def e w sl idxS rate ..
  define out where "out = sliceLoop [0, 1] 48000 1 (0 # restT) ([], 0)"
  have layer: "subarray ?w (0 * 2) (min (0 * 2 + 2) (length ?w)) = [0, 1]"
    by (simp add: subarray_def)
  have sl1: "max 1 (length [0, 1 :: real] div TIME_SLICES) = 1"
    by (simp add: TIME_SLICES_def)
  have first: "surfaceLoop ?w 48000 2 (0 # restS) ([], 0)
        = surfaceLoop ?w 48000 2 restS ([fst out], snd out)"
    unfolding surfaceLoop.simps Let_def layer sl1 idxT out_def by simp
  have "out = sliceLoop [0, 1] 48000 1 restT ([?mag], maxLoop ?mag 0)"
    by (simp add: out_def Let_def subarray_def WINDOW_SIZE_def)
  moreover have "rowValues (fst ([?mag], maxLoop ?mag 0))
      \<subseteq> rowValues (fst (sliceLoop [0, 1] 48000 1 restT ([?mag], maxLoop ?mag 0)))"
    by (rule sliceLoop_grows)
  ultimately have "set ?mag \<subseteq> rowValues (fst out)"
    by (simp add: rowValues_def)
  moreover have "binMagnitude ([0, 1] @ replicate 62 0) 48000 0 \<in> set ?mag"
    by (simp add: computeSpectrumSegment_def FREQ_BINS_def)
  ultimately have "binMagnitude ([0, 1] @ replicate 62 0) 48000 0 \<in> surfaceValues (fst ([fst out], snd out))"
    by (auto simp add: surfaceValues_def)
  moreover have "surfaceValues (fst ([fst out], snd out))
      \<subseteq> surfaceValues (fst (surfaceLoop ?w 48000 2 restS ([fst out], snd out)))"
    by (rule surfaceLoop_grows)
  ultimately show ?thesis
    unfolding raw first by blast
qed

theorem surfaces_relative_to_loudest_witness:
  "1 \<in> surfaceValues (extractSurfacesForWindow clickPayload 0 6)
   \<and> 0 < snd (rawSurfaces clickPayload 0 6)"
proof -
  have "0 < binMagnitude ([0, 1] @ replicate 62 0) 48000 0"
    by (rule click_magnitude_pos)
  then have h: "\<exists>v\<in>surfaceValues (fst (rawSurfaces clickPayload 0 6)). v \<noteq> 0"
    using click_raw_member by force
  have m: "binMagnitude ([0, 1] @ replicate 62 0) 48000 0 \<le> snd (rawSurfaces clickPayload 0 6)"
    using surfaces_relative_to_loudest [OF h] click_raw_member by blast
  show ?thesis
    using surfaces_relative_to_loudest [OF h] m click_magnitude_pos [of 48000 0] by force
qed

section \<open>What a tick depends on\<close>

lemma dftLoop_append:
  "dftLoop cd s k (xs @ ys) acc =
     (case dftLoop cd s k xs acc of None \<Rightarrow> None | Some a \<Rightarrow> dftLoop cd s k ys a)"
proof (induction xs arbitrary: acc)
  case Nil
  then show ?case by simp
next
  case (Cons n xs)
  then show ?case
    by (simp add: Let_def split: option.splits)
qed

lemma dftLoop_silent:
  assumes "\<forall>n\<in>set ns. sampleAt cd (s + int n) = Some 0"
  shows "dftLoop cd s k ns acc = Some acc"
  using assms by (induction ns arbitrary: acc) (simp_all add: Let_def)

lemma click_samples:
  "sampleAt (channelData clickBuffer) (0 + int n) =
     (if n < 4096 then Some (if n = 1024 then 1 else 0) else None)"
  by (simp add: sampleAt_def clickBuffer_def nth_list_update)

lemma click_dft:
  "dftLoop (channelData clickBuffer) 0 k [0..<fftSize] (0, 0)
   = Some (0.5 * (1 - cos ((2 * pi * real (1024::nat)) / (real fftSize - 1)))
             * cos ((2 * pi * real k * real (1024::nat)) / real fftSize),
           - (0.5 * (1 - cos ((2 * pi * real (1024::nat)) / (real fftSize - 1)))
             * sin ((2 * pi * real k * real (1024::nat)) / real fftSize)))"
proof -
  let ?cd = "channelData clickBuffer"
  have split: "[0..<fftSize] = [0..<1024] @ [1024] @ [1025..<fftSize]"
  proof -
    have "[0..<1024 + 1024] = [0..<1024] @ [1024..<1024 + 1024]"
      by (rule upt_add_eq_append) simp
    then have "[0..<fftSize] = [0..<1024] @ [1024..<fftSize]"
      unfolding fftSize_def by (simp del: upt_rec_numeral)
    moreover have "[1024..<fftSize] = 1024 # [Suc 1024..<fftSize]"
      by (rule upt_conv_Cons) (simp add: fftSize_def)
    ultimately show ?thesis
      by simp
  qed
  have before: "dftLoop ?cd 0 k [0..<1024] (0, 0) = Some (0, 0)"
  proof (rule dftLoop_silent, rule ballI)
    fix n assume "n \<in> set [0..<1024]"
    then have "n < 1024"
      unfolding set_upt by simp
    then show "sampleAt ?cd (0 + int n) = Some 0"
      unfolding click_samples by simp
  qed
  have after: "dftLoop ?cd 0 k [1025..<fftSize] acc = Some acc" for acc
  proof (rule dftLoop_silent, rule ballI)
    fix n assume "n \<in> set [1025..<fftSize]"
    then have "1025 \<le> n" "n < 2048"
      unfolding set_upt fftSize_def by simp_all
    then show "sampleAt ?cd (0 + int n) = Some 0"
      unfolding click_samples by simp
  qed
  have at: "sampleAt ?cd 1024 = Some 1"
    using click_samples [of 1024] by simp
  show ?thesis
    unfolding split dftLoop_append before
    by (simp add: at after Let_def del: upt_rec_numeral)
qed

lemma click_window: "1 / 2 \<le> 0.5 * (1 - cos ((2 * pi * real (1024::nat)) / (real fftSize - 1)))"
proof -
  have "(2 * pi * real (1024::nat)) / (real fftSize - 1) = pi / 2047 + pi"
    by (simp add: fftSize_def field_simps)
  then have "cos ((2 * pi * real (1024::nat)) / (real fftSize - 1)) = - cos (pi / 2047)"
    by (simp only: cos_periodic_pi)
  moreover have "0 \<le> cos (pi / 2047)"
  proof (rule cos_ge_zero)
    have "0 < pi / 2047" "0 < pi / 2"
      using pi_gt_zero by simp_all
    then show "- (pi / 2) \<le> pi / 2047"
      by linarith
    show "pi / 2047 \<le> pi / 2"
      using pi_gt_zero by (intro divide_left_mono) simp_all
  qed
  ultimately show ?thesis
    by simp
qed

lemma byteValueOf_loud:
  assumes "1 / 2 \<le> w" and "c\<^sup>2 + s\<^sup>2 = 1"
  shows "34 \<le> byteValueOf (w * c, - (w * s))"
proof -
  have w: "0 \<le> w"
    using assms(1) by simp
  have "(w * c) * (w * c) + (- (w * s)) * (- (w * s)) = w\<^sup>2 * (c\<^sup>2 + s\<^sup>2)"
    by (simp add: power2_eq_square algebra_simps)
  then have mag: "sqrt ((w * c) * (w * c) + (- (w * s)) * (- (w * s))) = w"
    using assms(2) w by simp
  define normalized where "normalized = w / real fftSize + 1 / 10 ^ 10"
  have "1 / 4096 \<le> w / real fftSize"
    using assms(1) by (simp add: fftSize_def)
  then have n: "1 / 10000 \<le> normalized" "0 < normalized"
    by (simp_all add: normalized_def)
  have "10 powr (- 4) = (1::real) / 10000"
    by (simp add: powr_minus inverse_eq_divide)
  then have "10 powr (- 4) \<le> normalized"
    using n(1) by simp
  then have "- 4 \<le> log 10 normalized"
    using n(2) by (simp add: le_log_iff)
  then have "34 \<le> (20 * log 10 normalized - MIN_DECIBELS) * (255 / (MAX_DECIBELS - MIN_DECIBELS))"
    by (simp add: MIN_DECIBELS_def MAX_DECIBELS_def)
  then have "34 \<le> max 0 (min 255 ((20 * log 10 normalized - MIN_DECIBELS)
                                   * (255 / (MAX_DECIBELS - MIN_DECIBELS))))"
    by simp
  moreover have "byteValueOf (w * c, - (w * s))
      = max 0 (min 255 ((20 * log 10 normalized - MIN_DECIBELS) * (255 / (MAX_DECIBELS - MIN_DECIBELS))))"
    unfolding byteValueOf_def Let_def fst_conv snd_conv mag normalized_def ..
  ultimately show ?thesis
    by simp
qed

lemma click_binByte: "34 \<le> binByte (channelData clickBuffer) 0 k"
proof -
  have "(cos ((2 * pi * real k * real (1024::nat)) / real fftSize))\<^sup>2
        + (sin ((2 * pi * real k * real (1024::nat)) / real fftSize))\<^sup>2 = 1"
    by (simp add: add.commute)
  then show ?thesis
    unfolding binByte_def click_dft option.case
    using click_window by (intro byteValueOf_loud)
qed

lemma click_cutoff: "cutoffBinOf clickBuffer (min FREQUENCY_BINS 1024) = 9"
  by (simp add: cutoffBinOf_def Let_def clickBuffer_def FREQUENCY_BINS_def fftSize_def
      LOW_FREQUENCY_CUTOFF_HZ_def)

lemma click_analysis:
  assumes "length t = 1024" and "length (prevDataOf t prevRef) = 1024"
  shows "\<exists>t' p'. computeFrequencyData 0 clickBuffer t prevRef = Updated t' p'
           \<and> length t' = 1024 \<and> length p' = 1024
           \<and> p' ! 100 = prevDataOf t prevRef ! 100 * SMOOTHING_CONSTANT
                          + binByte (channelData clickBuffer) 0 100 * (1 - SMOOTHING_CONSTANT)
           \<and> t' ! 100 = toUint8 (p' ! 100)"
proof -
  have s0: "startIndexOf 0 clickBuffer = 0"
    by (rule startIndexOf_zero)
  have nonneg: "0 \<le> startIndexOf 0 clickBuffer"
    and fit: "startIndexOf 0 clickBuffer + int fftSize < int (length (channelData clickBuffer))"
    unfolding s0 by (simp_all add: fftSize_def clickBuffer_def)
  have len: "length (prevDataOf t prevRef) = length t"
    using assms by simp
  obtain t' p' where r: "computeFrequencyData 0 clickBuffer t prevRef = Updated t' p'"
    "length t' = length t" "length p' = length t"
    and vals: "\<And>k. k < length t \<Longrightarrow>
                 p' ! k = (if k < cutoffBinOf clickBuffer (min FREQUENCY_BINS (length t)) then 0
                          else if k < min FREQUENCY_BINS (length t)
                          then prevDataOf t prevRef ! k * SMOOTHING_CONSTANT
                               + binByte (channelData clickBuffer) (startIndexOf 0 clickBuffer) k
                                 * (1 - SMOOTHING_CONSTANT)
                          else prevDataOf t prevRef ! k)
               \<and> t' ! k = (if k < cutoffBinOf clickBuffer (min FREQUENCY_BINS (length t)) then 0
                          else if k < min FREQUENCY_BINS (length t)
                          then toUint8 (p' ! k)
                          else t ! k)"
    using computeFrequencyData_updated [OF nonneg fit len] by blast
  have "p' ! 100 = prevDataOf t prevRef ! 100 * SMOOTHING_CONSTANT
                          + binByte (channelData clickBuffer) 0 100 * (1 - SMOOTHING_CONSTANT)
        \<and> t' ! 100 = toUint8 (p' ! 100)"
    using vals [of 100] unfolding assms(1) click_cutoff s0 by (simp add: FREQUENCY_BINS_def)
  then show ?thesis
    using r assms(1) by simp
qed

lemma updateSpectrogram_updated:
  assumes "dataArrayRef st = Some d" and "spectrogramTextureRef st = Some tex"
    and "audioBufferRef st = Some b"
    and "computeFrequencyData now b d (prevFrequencyDataRef st) = Updated t p"
  shows "\<exists>st'. updateSpectrogram now st = Some st' \<and> dataArrayRef st' = Some t
           \<and> prevFrequencyDataRef st' = Some p \<and> audioBufferRef st' = Some b
           \<and> spectrogramTextureRef st' \<noteq> None"
  using assms by (simp add: updateSpectrogram_def commitRow_fields) (simp add: commitRow_def Let_def)

lemma floor_gap:
  fixes x y :: real
  assumes "x + 1 \<le> y"
  shows "\<lfloor>x\<rfloor> < \<lfloor>y\<rfloor>"
proof -
  have "\<lfloor>x\<rfloor> + 1 = \<lfloor>x + 1\<rfloor>"
    by simp
  also have "\<dots> \<le> \<lfloor>y\<rfloor>"
    using assms by (rule floor_mono)
  finally show ?thesis
    by simp
qed

text \<open>
  Claim C9, as stated, fails.  Two evaluations of a tick at the same wall time with the
  same asset give different frames when one follows the other: the analyzer blends every
  bin with the value it computed on the previous tick.  With the click buffer and wall
  time 0, bin 100 of the frame differs between the first and the second tick.
\<close>

theorem frame_depends_on_previous_tick:
  "frameAfter [0] (freshComponent (Some clickBuffer)) ! 100
   \<noteq> frameAfter [0, 0] (freshComponent (Some clickBuffer)) ! 100"
proof -
  let ?st0 = "freshComponent (Some clickBuffer)"
  define B where "B = binByte (channelData clickBuffer) 0 100"
  have B: "34 \<le> B" "B \<le> 255"
    using click_binByte [of 100] binByte_range [of "channelData clickBuffer" 0 100]
    by (simp_all add: B_def)
  have st0: "dataArrayRef ?st0 = Some (replicate 1024 0)" "audioBufferRef ?st0 = Some clickBuffer"
    "prevFrequencyDataRef ?st0 = None"
    "spectrogramTextureRef ?st0 = Some (replicate (FREQUENCY_BINS * HISTORY_LENGTH * 4) 0)"
    by (simp_all add: freshComponent_def)
  obtain t1 p1 where a1: "computeFrequencyData 0 clickBuffer (replicate 1024 0) None = Updated t1 p1"
    and l1: "length t1 = 1024" "length p1 = 1024"
    and v1: "p1 ! 100 = B * (1 - SMOOTHING_CONSTANT)" "t1 ! 100 = toUint8 (p1 ! 100)"
    using click_analysis [of "replicate 1024 0" None] by (auto simp add: prevDataOf_def B_def)
  obtain s1 where s1: "updateSpectrogram 0 ?st0 = Some s1" "dataArrayRef s1 = Some t1"
    "prevFrequencyDataRef s1 = Some p1" "audioBufferRef s1 = Some clickBuffer"
    "spectrogramTextureRef s1 \<noteq> None"
    using updateSpectrogram_updated [OF st0(1) st0(4) st0(2), of 0 t1 p1] a1 st0(3) by auto
  obtain t2 p2 where a2: "computeFrequencyData 0 clickBuffer t1 (Some p1) = Updated t2 p2"
    and v2: "p2 ! 100 = p1 ! 100 * SMOOTHING_CONSTANT + B * (1 - SMOOTHING_CONSTANT)"
      "t2 ! 100 = toUint8 (p2 ! 100)"
    using click_analysis [of t1 "Some p1"] l1 by (auto simp add: prevDataOf_def B_def)
  obtain tex1 where tex1: "spectrogramTextureRef s1 = Some tex1"
    using s1(5) by blast
  obtain s2 where s2: "updateSpectrogram 0 s1 = Some s2" "dataArrayRef s2 = Some t2"
    using updateSpectrogram_updated [OF s1(2) tex1 s1(4), of 0 t2 p2] a2 s1(3) by auto
  have f1: "frameAfter [0] ?st0 = t1"
    using s1 by (simp add: frameAfter_def)
  have f2: "frameAfter [0, 0] ?st0 = t2"
    using s1 s2 by (simp add: frameAfter_def)
  have x: "p1 ! 100 = 0.85 * B" and y: "p2 ! 100 = 0.9775 * B"
    using v1(1) v2(1) by (simp_all add: SMOOTHING_CONSTANT_def)
  have "0 \<le> p1 ! 100" "p1 ! 100 < 256" "0 \<le> p2 ! 100" "p2 ! 100 < 256"
    using B unfolding x y by simp_all
  then have u: "t1 ! 100 = nat \<lfloor>p1 ! 100\<rfloor>" "t2 ! 100 = nat \<lfloor>p2 ! 100\<rfloor>"
    using v1(2) v2(2) by (simp_all add: toUint8_floor)
  have "p1 ! 100 + 1 \<le> p2 ! 100"
    using B unfolding x y by simp
  then have lt: "\<lfloor>p1 ! 100\<rfloor> < \<lfloor>p2 ! 100\<rfloor>"
    by (rule floor_gap)
  have "0 \<le> p1 ! 100"
    using B unfolding x by simp
  then have "0 \<le> \<lfloor>p1 ! 100\<rfloor>"
    by simp
  then have "nat \<lfloor>p1 ! 100\<rfloor> < nat \<lfloor>p2 ! 100\<rfloor>"
    using lt by linarith
  then have "t1 ! 100 < t2 ! 100"
    unfolding u .
  then have "t1 ! 100 \<noteq> t2 ! 100"
    by simp
  then show ?thesis
    unfolding f1 f2 .
qed

text \<open>
  Claim C9, amended.  A tick is a function of the wall time, the asset and the state the
  visual path keeps between ticks (the analyzer's previous frame, the previous smoothed
  row and the history); it is independent of the audio engine: whatever the context, the
  source, the analyser and the two flags are, the tick computes the same visual state and
  leaves them as they are.
\<close>

theorem visual_path_ignores_engine:
  "updateSpectrogram now
     (st\<lparr>audioContextRef := ctx, audioSourceRef := src, analyserRef := an,
          audioReadyRef := ready, isStartedRef := started\<rparr>)
   = map_option
       (\<lambda>s. s\<lparr>audioContextRef := ctx, audioSourceRef := src, analyserRef := an,
                audioReadyRef := ready, isStartedRef := started\<rparr>)
       (updateSpectrogram now st)"
  by (simp add: updateSpectrogram_def commitRow_def Let_def split: option.splits Analysis.splits)

end
